(* ===== verification/Prelude.thy ===== *)
theory Prelude
  imports Main "HOL-Library.State_Monad" "HOL-Library.Finite_Map"
    "HOL-Library.List_Lexorder" "HOL-Library.Char_ord" "HOL-Library.Sublist" "HOL-Library.Code_Target_Numeral"
begin

text \<open>
  Shared vocabulary of the development: type synonyms, the collections of proof rules, and the
  program logic of the state monad.

  \<^item> A Go \<open>string\<close> is a sequence of bytes; \<open>string\<close> (a list of \<open>char\<close>, each one byte) is used
    for it as it is.
  \<^item> A Go \<open>map[string]V\<close> is a finite map; a nil map is \<open>None\<close> of an optional finite map.
  \<^item> Code with effects is a function of the state monad of \<^theory_text>\<open>HOL-Library.State_Monad\<close>.
    \<open>hoare\<close> is its partial correctness triple and \<open>keeps\<close> is preservation of a predicate on the
    state. The rules that decompose \<open>do\<close> blocks, conditionals and case distinctions are
    collected in \<open>hoare_intros\<close> and \<open>keeps_intros\<close>.
\<close>

type_synonym 'v smap = "(string, 'v) fmap"

named_theorems hoare_intros \<open>syntax directed rules of the triples\<close>
named_theorems keeps_intros \<open>syntax directed rules of state predicates kept by a program\<close>
named_theorems go_defs \<open>definitions of small model functions that proofs unfold together\<close>

section \<open>Programs of the state monad\<close>

definition run_result :: "('s, 'a) state \<Rightarrow> 's \<Rightarrow> 'a" where
  "run_result m s = fst (run_state m s)"

definition run_after :: "('s, 'a) state \<Rightarrow> 's \<Rightarrow> 's" where
  "run_after m s = snd (run_state m s)"

lemma run_state_split: "run_state m s = (run_result m s, run_after m s)"
  by (simp add: run_result_def run_after_def)

lemma run_result_simps [simp]:
  "run_result (State_Monad.return x) s = x"
  "run_result (State_Monad.bind m f) s = run_result (f (run_result m s)) (run_after m s)"
  "run_result (State g) s = fst (g s)"
  by (simp_all add: run_result_def run_after_def split: prod.splits)

lemma run_after_simps [simp]:
  "run_after (State_Monad.return x) s = s"
  "run_after (State_Monad.bind m f) s = run_after (f (run_result m s)) (run_after m s)"
  "run_after (State g) s = snd (g s)"
  by (simp_all add: run_result_def run_after_def split: prod.splits)

section \<open>Triples\<close>

definition hoare :: "('s \<Rightarrow> bool) \<Rightarrow> ('s, 'a) state \<Rightarrow> ('a \<Rightarrow> 's \<Rightarrow> bool) \<Rightarrow> bool" where
  "hoare P m Q \<longleftrightarrow> (\<forall>s. P s \<longrightarrow> Q (run_result m s) (run_after m s))"

lemma hoareI: "(\<And>s. P s \<Longrightarrow> Q (run_result m s) (run_after m s)) \<Longrightarrow> hoare P m Q"
  by (simp add: hoare_def)

lemma hoareD: "hoare P m Q \<Longrightarrow> P s \<Longrightarrow> Q (run_result m s) (run_after m s)"
  by (simp add: hoare_def)

lemma hoare_pre: "hoare P m Q \<Longrightarrow> (\<And>s. P' s \<Longrightarrow> P s) \<Longrightarrow> hoare P' m Q"
  by (simp add: hoare_def)

lemma hoare_post: "hoare P m Q \<Longrightarrow> (\<And>a s. Q a s \<Longrightarrow> Q' a s) \<Longrightarrow> hoare P m Q'"
  by (simp add: hoare_def)

lemma hoare_conseq:
  "hoare P m Q \<Longrightarrow> (\<And>s. P' s \<Longrightarrow> P s) \<Longrightarrow> (\<And>a s. Q a s \<Longrightarrow> Q' a s) \<Longrightarrow> hoare P' m Q'"
  by (simp add: hoare_def)

lemma hoare_conj: "hoare P m Q \<Longrightarrow> hoare P m R \<Longrightarrow> hoare P m (\<lambda>a s. Q a s \<and> R a s)"
  by (simp add: hoare_def)

lemma hoare_return: "(\<And>s. P s \<Longrightarrow> Q x s) \<Longrightarrow> hoare P (State_Monad.return x) Q"
  by (simp add: hoare_def)

lemma hoare_bind:
  "hoare P m R \<Longrightarrow> (\<And>a. hoare (R a) (f a) Q) \<Longrightarrow> hoare P (State_Monad.bind m f) Q"
  by (simp add: hoare_def)

lemma hoare_if:
  "(b \<Longrightarrow> hoare P m Q) \<Longrightarrow> (\<not> b \<Longrightarrow> hoare P n Q) \<Longrightarrow> hoare P (if b then m else n) Q"
  by simp

lemma hoare_option:
  "(x = None \<Longrightarrow> hoare P m Q) \<Longrightarrow> (\<And>y. x = Some y \<Longrightarrow> hoare P (f y) Q) \<Longrightarrow>
   hoare P (case x of None \<Rightarrow> m | Some y \<Rightarrow> f y) Q"
  by (cases x) simp_all

lemma hoare_sum:
  "(\<And>e. x = Inl e \<Longrightarrow> hoare P (f e) Q) \<Longrightarrow> (\<And>y. x = Inr y \<Longrightarrow> hoare P (g y) Q) \<Longrightarrow>
   hoare P (case x of Inl e \<Rightarrow> f e | Inr y \<Rightarrow> g y) Q"
  by (cases x) simp_all

lemma hoare_prod:
  "(\<And>a b. x = (a, b) \<Longrightarrow> hoare P (f a b) Q) \<Longrightarrow> hoare P (case x of (a, b) \<Rightarrow> f a b) Q"
  by (cases x) simp

lemma hoare_list:
  "(xs = [] \<Longrightarrow> hoare P m Q) \<Longrightarrow> (\<And>y ys. xs = y # ys \<Longrightarrow> hoare P (f y ys) Q) \<Longrightarrow>
   hoare P (case xs of [] \<Rightarrow> m | y # ys \<Rightarrow> f y ys) Q"
  by (cases xs) simp_all

lemmas hoare_cases = hoare_if hoare_option hoare_sum hoare_prod hoare_list

section \<open>Predicates kept by a program\<close>

definition keeps :: "('s \<Rightarrow> bool) \<Rightarrow> ('s, 'a) state \<Rightarrow> bool" where
  "keeps I m \<longleftrightarrow> (\<forall>s. I s \<longrightarrow> I (run_after m s))"

lemma keepsI: "(\<And>s. I s \<Longrightarrow> I (run_after m s)) \<Longrightarrow> keeps I m"
  by (simp add: keeps_def)

lemma keepsD: "keeps I m \<Longrightarrow> I s \<Longrightarrow> I (run_after m s)"
  by (simp add: keeps_def)

lemma keeps_hoare: "keeps I m \<longleftrightarrow> hoare I m (\<lambda>_. I)"
  by (simp add: keeps_def hoare_def)

lemma keeps_return [keeps_intros]: "keeps I (State_Monad.return x)"
  by (simp add: keeps_def)

lemma keeps_bind [keeps_intros]:
  "keeps I m \<Longrightarrow> (\<And>a. keeps I (f a)) \<Longrightarrow> keeps I (State_Monad.bind m f)"
  by (simp add: keeps_def)

lemma keeps_if [keeps_intros]:
  "(b \<Longrightarrow> keeps I m) \<Longrightarrow> (\<not> b \<Longrightarrow> keeps I n) \<Longrightarrow> keeps I (if b then m else n)"
  by simp

lemma keeps_option [keeps_intros]:
  "(x = None \<Longrightarrow> keeps I m) \<Longrightarrow> (\<And>y. x = Some y \<Longrightarrow> keeps I (f y)) \<Longrightarrow>
   keeps I (case x of None \<Rightarrow> m | Some y \<Rightarrow> f y)"
  by (cases x) simp_all

lemma keeps_sum [keeps_intros]:
  "(\<And>e. x = Inl e \<Longrightarrow> keeps I (f e)) \<Longrightarrow> (\<And>y. x = Inr y \<Longrightarrow> keeps I (g y)) \<Longrightarrow>
   keeps I (case x of Inl e \<Rightarrow> f e | Inr y \<Rightarrow> g y)"
  by (cases x) simp_all

lemma keeps_prod [keeps_intros]:
  "(\<And>a b. x = (a, b) \<Longrightarrow> keeps I (f a b)) \<Longrightarrow> keeps I (case x of (a, b) \<Rightarrow> f a b)"
  by (cases x) simp

end
