(* ===== verification/Go_Strings.thy ===== *)
theory Go_Strings
  imports Prelude
begin

text \<open>
  The operations of Go's \<open>strings\<close> and \<open>unicode/utf8\<close> packages that the operator uses, on byte
  strings: \<open>Split\<close>, \<open>Join\<close>, \<open>TrimSpace\<close>, \<open>TrimSuffix\<close>, \<open>TrimPrefix\<close>, \<open>HasPrefix\<close>,
  \<open>HasSuffix\<close>, \<open>ContainsAny\<close>, \<open>ReplaceAll\<close>, \<open>Index\<close>, \<open>LastIndex\<close>, \<open>ToLower\<close>, and the conversion
  between strings and slices of runes. They are the Go standard library's own rules, bytes that are
  not valid UTF-8 included. The lemmas relate splitting and joining, describe what trimming leaves,
  and show that decoding and encoding runes are inverse.
\<close>

section \<open>Splitting and joining\<close>

text \<open>\<open>strings.Split(s, sep)\<close> for a separator of one byte.\<close>

fun split_on :: "char \<Rightarrow> string \<Rightarrow> string list" where
  "split_on c [] = [[]]"
| "split_on c (x # xs) =
     (if x = c then [] # split_on c xs
      else (case split_on c xs of [] \<Rightarrow> [[x]] | y # ys \<Rightarrow> (x # y) # ys))"

text \<open>\<open>strings.Join(parts, sep)\<close>.\<close>

fun join :: "string \<Rightarrow> string list \<Rightarrow> string" where
  "join sep [] = []"
| "join sep [x] = x"
| "join sep (x # y # ys) = x @ sep @ join sep (y # ys)"

lemma split_on_not_Nil [simp]: "split_on c s \<noteq> []"
  by (induction s) (auto split: list.splits)

lemma split_on_no_sep [simp]: "c \<notin> set s \<Longrightarrow> split_on c s = [s]"
  by (induction s) auto

lemma split_on_append_sep [simp]:
  "c \<notin> set s \<Longrightarrow> split_on c (s @ c # t) = s # split_on c t"
  by (induction s) (auto split: list.splits)

lemma split_on_parts: "p \<in> set (split_on c s) \<Longrightarrow> c \<notin> set p"
proof (induction s arbitrary: p)
  case Nil
  then show ?case by simp
next
  case (Cons x xs)
  then show ?case by (fastforce split: if_splits list.splits)
qed

lemma split_on_chars: "p \<in> set (split_on c s) \<Longrightarrow> set p \<subseteq> set s"
proof (induction s arbitrary: p)
  case Nil
  then show ?case by simp
next
  case (Cons x xs)
  then show ?case by (fastforce split: if_splits list.splits)
qed

lemma join_Cons: "ys \<noteq> [] \<Longrightarrow> join sep (x # ys) = x @ sep @ join sep ys"
  by (cases ys) simp_all

lemma join_split_on: "join [c] (split_on c s) = s"
proof (induction s)
  case Nil
  then show ?case by simp
next
  case (Cons x xs)
  then show ?case
    by (cases "split_on c xs"; cases "tl (split_on c xs)") (auto simp: join_Cons)
qed

lemma split_on_join:
  "ps \<noteq> [] \<Longrightarrow> \<forall>p \<in> set ps. c \<notin> set p \<Longrightarrow> split_on c (join [c] ps) = ps"
proof (induction ps)
  case Nil
  then show ?case by simp
next
  case (Cons p ps)
  then show ?case by (cases ps) simp_all
qed

section \<open>Prefixes, suffixes and searching\<close>

definition trim_prefix :: "string \<Rightarrow> string \<Rightarrow> string" where
  "trim_prefix s p = (if prefix p s then drop (length p) s else s)"

definition trim_suffix :: "string \<Rightarrow> string \<Rightarrow> string" where
  "trim_suffix s p = (if suffix p s then take (length s - length p) s else s)"

text \<open>\<open>strings.Index\<close> and \<open>strings.LastIndex\<close>; \<open>None\<close> is the result \<open>-1\<close>.\<close>

fun str_index :: "string \<Rightarrow> string \<Rightarrow> nat option" where
  "str_index sub [] = (if sub = [] then Some 0 else None)"
| "str_index sub (x # xs) =
     (if prefix sub (x # xs) then Some 0 else map_option Suc (str_index sub xs))"

fun last_index :: "char \<Rightarrow> string \<Rightarrow> nat option" where
  "last_index c [] = None"
| "last_index c (x # xs) =
     (case last_index c xs of
        Some i \<Rightarrow> Some (Suc i)
      | None \<Rightarrow> (if x = c then Some 0 else None))"

lemma last_index_None_iff: "last_index c s = None \<longleftrightarrow> c \<notin> set s"
  by (induction s) (auto split: option.splits)

lemma last_index_None [simp]: "c \<notin> set s \<Longrightarrow> last_index c s = None"
  by (simp add: last_index_None_iff)

lemma last_index_append:
  "last_index c (s @ t) =
     (case last_index c t of Some i \<Rightarrow> Some (length s + i) | None \<Rightarrow> last_index c s)"
proof (induction s)
  case Nil
  then show ?case by (simp split: option.splits)
next
  case (Cons x xs)
  then show ?case by (simp split: option.splits)
qed

lemma last_index_Cons_notin: "c \<notin> set t \<Longrightarrow> last_index c (s @ c # t) = Some (length s)"
  by (simp add: last_index_append)

lemma last_index_Some:
  "last_index c s = Some i \<Longrightarrow> i < length s \<and> s ! i = c \<and> c \<notin> set (drop (Suc i) s)"
proof (induction s arbitrary: i)
  case Nil
  then show ?case by simp
next
  case (Cons x xs)
  then show ?case
    by (cases "last_index c xs") (auto simp: last_index_None_iff split: if_splits)
qed

lemma str_index_prefix: "prefix sub s \<Longrightarrow> str_index sub s = Some 0"
  by (cases s) simp_all

lemma str_index_Some: "str_index sub s = Some i \<Longrightarrow> prefix sub (drop i s) \<and> i \<le> length s"
proof (induction s arbitrary: i)
  case Nil
  then show ?case by (simp split: if_splits)
next
  case (Cons x xs)
  then show ?case by (auto split: if_splits)
qed

text \<open>\<open>strings.ReplaceAll(s, c, r)\<close> for a pattern of one byte.\<close>

definition replace_all :: "char \<Rightarrow> string \<Rightarrow> string \<Rightarrow> string" where
  "replace_all c r s = concat (map (\<lambda>x. if x = c then r else [x]) s)"

text \<open>
  \<open>strings.ToLower\<close> on ASCII. The code compares its result with \<open>postgres\<close>, \<open>postgresql\<close>, \<open>pgx\<close>
  and the empty string only; no rune outside ASCII has a lower case among the letters of these
  words, so mapping ASCII letters decides the comparison as the full mapping does.
\<close>

definition lower_char :: "char \<Rightarrow> char" where
  "lower_char c = (let n = of_char c :: nat in
     if 65 \<le> n \<and> n \<le> 90 then char_of (n + 32) else c)"

definition to_lower :: "string \<Rightarrow> string" where
  "to_lower s = map lower_char s"

section \<open>Decimal digits\<close>

definition is_digit :: "char \<Rightarrow> bool" where
  "is_digit c \<longleftrightarrow> 48 \<le> (of_char c :: nat) \<and> (of_char c :: nat) \<le> 57"

definition digit_val :: "char \<Rightarrow> nat" where
  "digit_val c = of_char c - 48"

definition digit_char :: "nat \<Rightarrow> char" where
  "digit_char d = char_of (48 + d)"

fun show_nat :: "nat \<Rightarrow> string" where
  "show_nat n = (if n < 10 then [digit_char n] else show_nat (n div 10) @ [digit_char (n mod 10)])"

declare show_nat.simps [simp del]

definition nat_of_digits :: "nat \<Rightarrow> string \<Rightarrow> nat" where
  "nat_of_digits = foldl (\<lambda>x c. x * 10 + digit_val c)"

lemma digit_char [simp]: "d < 10 \<Longrightarrow> is_digit (digit_char d)" "d < 10 \<Longrightarrow> digit_val (digit_char d) = d"
  by (simp_all add: is_digit_def digit_val_def digit_char_def)

lemma nat_of_digits_simps [simp]:
  "nat_of_digits x [] = x"
  "nat_of_digits x (c # cs) = nat_of_digits (x * 10 + digit_val c) cs"
  "nat_of_digits x (cs @ ds) = nat_of_digits (nat_of_digits x cs) ds"
  by (simp_all add: nat_of_digits_def)

lemma show_nat_not_Nil [simp]: "show_nat n \<noteq> []"
  by (subst show_nat.simps) simp

lemma show_nat_digits: "list_all is_digit (show_nat n)"
proof (induction n rule: show_nat.induct)
  case (1 n)
  then show ?case by (subst show_nat.simps) auto
qed

lemma nat_of_digits_show_nat [simp]: "nat_of_digits 0 (show_nat n) = n"
proof (induction n rule: show_nat.induct)
  case (1 n)
  then show ?case by (subst show_nat.simps) auto
qed

section \<open>White space\<close>

text \<open>
  The UTF-8 encodings of the runes \<open>unicode.IsSpace\<close> accepts: tab, newline, vertical tab, form
  feed, carriage return, space, U+0085, U+00A0, U+1680, U+2000 to U+200A, U+2028, U+2029, U+202F,
  U+205F and U+3000. A byte string starts (ends) with a white space rune exactly when one of these
  is its prefix (suffix), so \<open>strings.TrimSpace\<close> strips them from both ends.
\<close>

definition space_encodings :: "string list" where
  "space_encodings =
    [[CHR 0x09], [CHR 0x0A], [CHR 0x0B], [CHR 0x0C], [CHR 0x0D], [CHR 0x20],
     [CHR 0xC2, CHR 0x85], [CHR 0xC2, CHR 0xA0], [CHR 0xE1, CHR 0x9A, CHR 0x80],
     [CHR 0xE2, CHR 0x80, CHR 0x80], [CHR 0xE2, CHR 0x80, CHR 0x81],
     [CHR 0xE2, CHR 0x80, CHR 0x82], [CHR 0xE2, CHR 0x80, CHR 0x83],
     [CHR 0xE2, CHR 0x80, CHR 0x84], [CHR 0xE2, CHR 0x80, CHR 0x85],
     [CHR 0xE2, CHR 0x80, CHR 0x86], [CHR 0xE2, CHR 0x80, CHR 0x87],
     [CHR 0xE2, CHR 0x80, CHR 0x88], [CHR 0xE2, CHR 0x80, CHR 0x89],
     [CHR 0xE2, CHR 0x80, CHR 0x8A], [CHR 0xE2, CHR 0x80, CHR 0xA8],
     [CHR 0xE2, CHR 0x80, CHR 0xA9], [CHR 0xE2, CHR 0x80, CHR 0xAF],
     [CHR 0xE2, CHR 0x81, CHR 0x9F], [CHR 0xE3, CHR 0x80, CHR 0x80]]"

function strip_prefixes :: "string list \<Rightarrow> string \<Rightarrow> string" where
  "strip_prefixes encs s =
     (case List.find (\<lambda>e. e \<noteq> [] \<and> prefix e s) encs of
        None \<Rightarrow> s
      | Some e \<Rightarrow> strip_prefixes encs (drop (length e) s))"
  by pat_completeness auto
termination
proof (relation "measure (\<lambda>(encs, s). length s)", simp, clarsimp)
  fix encs :: "string list" and s e :: string
  assume "List.find (\<lambda>e. e \<noteq> [] \<and> prefix e s) encs = Some e"
  then have "e \<noteq> [] \<and> prefix e s" by (auto simp: find_Some_iff)
  then show "length s - length e < length s"
    using prefix_length_le by (cases s) fastforce+
qed

declare strip_prefixes.simps [simp del]

definition trim_space :: "string \<Rightarrow> string" where
  "trim_space s =
     rev (strip_prefixes (map rev space_encodings) (rev (strip_prefixes space_encodings s)))"

lemma strip_prefixes_suffix: "suffix (strip_prefixes encs s) s"
proof (induction encs s rule: strip_prefixes.induct)
  case (1 encs s)
  show ?case
  proof (cases "List.find (\<lambda>e. e \<noteq> [] \<and> prefix e s) encs")
    case None
    then show ?thesis by (simp add: strip_prefixes.simps)
  next
    case (Some e)
    with 1 have "suffix (strip_prefixes encs (drop (length e) s)) (drop (length e) s)" by blast
    then have "suffix (strip_prefixes encs (drop (length e) s)) s"
      by (meson suffix_drop suffix_order.trans)
    with Some show ?thesis by (simp add: strip_prefixes.simps [of encs s])
  qed
qed

lemma strip_prefixes_done: "e \<in> set encs \<Longrightarrow> prefix e (strip_prefixes encs s) \<Longrightarrow> e = []"
proof (induction encs s rule: strip_prefixes.induct)
  case (1 encs s)
  show ?case
  proof (cases "List.find (\<lambda>e. e \<noteq> [] \<and> prefix e s) encs")
    case None
    with 1 show ?thesis by (auto simp: strip_prefixes.simps [of encs s] find_None_iff)
  next
    case (Some f)
    with 1 show ?thesis by (simp add: strip_prefixes.simps [of encs s])
  qed
qed

lemma strip_prefixes_id:
  "\<forall>e \<in> set encs. prefix e s \<longrightarrow> e = [] \<Longrightarrow> strip_prefixes encs s = s"
  by (subst strip_prefixes.simps) (auto simp: find_None_iff split: option.splits dest: find_Some_iff [THEN iffD1])

lemma strip_prefixes_set: "set (strip_prefixes encs s) \<subseteq> set s"
  using strip_prefixes_suffix set_mono_suffix by blast

lemma trim_space_set: "set (trim_space s) \<subseteq> set s"
  unfolding trim_space_def set_rev
  by (rule subset_trans [OF strip_prefixes_set]) (simp add: strip_prefixes_set)

lemma trim_space_length: "length (trim_space s) \<le> length s"
  by (metis (no_types, lifting) trim_space_def length_rev le_trans suffix_length_le strip_prefixes_suffix)

lemma trim_space_Nil [simp]: "trim_space [] = []"
  using trim_space_length [of "[]"] by simp

lemma space_encodings_not_Nil: "[] \<notin> set space_encodings"
  by (auto simp: space_encodings_def)

text \<open>Trimming is idempotent: what is left has no white space at either end.\<close>

lemma trim_space_idem [simp]: "trim_space (trim_space s) = trim_space s"
proof -
  let ?l = "strip_prefixes space_encodings s"
  have right: "strip_prefixes (map rev space_encodings) (rev (trim_space s)) = rev (trim_space s)"
    unfolding trim_space_def rev_rev_ident
    by (rule strip_prefixes_id) (auto dest!: strip_prefixes_done [rotated])
  have "prefix (trim_space s) ?l"
    unfolding trim_space_def by (metis rev_rev_ident strip_prefixes_suffix suffix_to_prefix)
  then have "strip_prefixes space_encodings (trim_space s) = trim_space s"
    by (intro strip_prefixes_id) (metis prefix_order.trans strip_prefixes_done)
  with right show ?thesis by (simp add: trim_space_def [of "trim_space s"])
qed

text \<open>A character of no white space rune is never stripped.\<close>

lemma strip_prefixes_keeps:
  "c \<in> set s \<Longrightarrow> \<forall>e \<in> set encs. c \<notin> set e \<Longrightarrow> c \<in> set (strip_prefixes encs s)"
proof (induction encs s rule: strip_prefixes.induct)
  case (1 encs s)
  show ?case
  proof (cases "List.find (\<lambda>e. e \<noteq> [] \<and> prefix e s) encs")
    case None
    with 1 show ?thesis by (simp add: strip_prefixes.simps [of encs s])
  next
    case (Some e)
    then have e: "prefix e s" "c \<notin> set e" using 1 by (auto simp: find_Some_iff)
    then have "c \<in> set (drop (length e) s)" using 1 by (auto simp: prefix_def)
    with 1 Some show ?thesis by (simp add: strip_prefixes.simps [of encs s])
  qed
qed

lemma trim_space_keeps:
  assumes "c \<in> set s" "\<forall>e \<in> set space_encodings. c \<notin> set e"
  shows "c \<in> set (trim_space s)"
proof -
  have "c \<in> set (strip_prefixes space_encodings s)" using assms by (rule strip_prefixes_keeps)
  then have "c \<in> set (strip_prefixes (map rev space_encodings) (rev (strip_prefixes space_encodings s)))"
    by (intro strip_prefixes_keeps) (use assms(2) in auto)
  then show ?thesis by (simp add: trim_space_def)
qed

section \<open>Runes\<close>

text \<open>
  \<open>utf8.DecodeRuneInString\<close> on a non-empty string: the rune and the number of bytes that follow
  the first one and belong to it. A byte that starts no valid encoding is U+FFFD (65533) and is one
  byte wide.
\<close>

definition cont_byte :: "nat \<Rightarrow> nat \<Rightarrow> char \<Rightarrow> bool" where
  "cont_byte lo hi c \<longleftrightarrow> lo \<le> (of_char c :: nat) \<and> of_char c \<le> hi"

definition low6 :: "char \<Rightarrow> nat" where
  "low6 c = of_char c mod 64"

definition rune_error :: nat where
  "rune_error = 65533"

definition second_range :: "nat \<Rightarrow> nat \<times> nat" where
  "second_range b0 =
     (if b0 = 224 then (160, 191) else if b0 = 237 then (128, 159)
      else if b0 = 240 then (144, 191) else if b0 = 244 then (128, 143) else (128, 191))"

definition decode_rune :: "char \<Rightarrow> string \<Rightarrow> nat \<times> nat" where
  "decode_rune c0 cs =
     (let b0 = of_char c0; (lo, hi) = second_range b0 in
      if b0 < 128 then (b0, 0)
      else if 194 \<le> b0 \<and> b0 < 224 then
        (case cs of c1 # _ \<Rightarrow>
           if cont_byte lo hi c1 then ((b0 - 192) * 64 + low6 c1, 1) else (rune_error, 0)
         | _ \<Rightarrow> (rune_error, 0))
      else if 224 \<le> b0 \<and> b0 < 240 then
        (case cs of c1 # c2 # _ \<Rightarrow>
           if cont_byte lo hi c1 \<and> cont_byte 128 191 c2
           then ((b0 - 224) * 4096 + low6 c1 * 64 + low6 c2, 2) else (rune_error, 0)
         | _ \<Rightarrow> (rune_error, 0))
      else if 240 \<le> b0 \<and> b0 < 245 then
        (case cs of c1 # c2 # c3 # _ \<Rightarrow>
           if cont_byte lo hi c1 \<and> cont_byte 128 191 c2 \<and> cont_byte 128 191 c3
           then ((b0 - 240) * 262144 + low6 c1 * 4096 + low6 c2 * 64 + low6 c3, 3)
           else (rune_error, 0)
         | _ \<Rightarrow> (rune_error, 0))
      else (rune_error, 0))"

text \<open>\<open>[]rune(s)\<close>.\<close>

fun runes :: "string \<Rightarrow> nat list" where
  "runes [] = []"
| "runes (c # cs) =
     (case decode_rune c cs of (r, k) \<Rightarrow> r # runes (drop k cs))"

text \<open>\<open>WriteRune\<close> and the conversion \<open>string(rs)\<close>: surrogates and values beyond U+10FFFF are
  written as U+FFFD.\<close>

definition encode_rune :: "nat \<Rightarrow> string" where
  "encode_rune r0 =
     (let r = (if (55296 \<le> r0 \<and> r0 < 57344) \<or> 1114111 < r0 then rune_error else r0) in
      map char_of
        (if r < 128 then [r]
         else if r < 2048 then [192 + r div 64, 128 + r mod 64]
         else if r < 65536 then [224 + r div 4096, 128 + r div 64 mod 64, 128 + r mod 64]
         else [240 + r div 262144, 128 + r div 4096 mod 64, 128 + r div 64 mod 64,
               128 + r mod 64]))"

definition string_of_runes :: "nat list \<Rightarrow> string" where
  "string_of_runes rs = concat (map encode_rune rs)"

text \<open>A string is valid UTF-8 when writing back its runes gives the same bytes: an invalid byte
  is decoded as U+FFFD, which is three bytes long.\<close>

definition valid_utf8 :: "string \<Rightarrow> bool" where
  "valid_utf8 s \<longleftrightarrow> string_of_runes (runes s) = s"

definition ascii :: "string \<Rightarrow> bool" where
  "ascii s \<longleftrightarrow> (\<forall>c \<in> set s. (of_char c :: nat) < 128)"

lemma string_of_runes_simps [simp]:
  "string_of_runes [] = []"
  "string_of_runes (r # rs) = encode_rune r @ string_of_runes rs"
  "string_of_runes (rs @ qs) = string_of_runes rs @ string_of_runes qs"
  by (simp_all add: string_of_runes_def)

lemma decode_rune_ascii [simp]: "(of_char c :: nat) < 128 \<Longrightarrow> decode_rune c cs = (of_char c, 0)"
  by (simp add: decode_rune_def Let_def split: prod.splits)

lemma encode_rune_ascii [simp]: "r < 128 \<Longrightarrow> encode_rune r = [char_of r]"
  by (simp add: encode_rune_def Let_def)

lemma encode_rune_not_Nil [simp]: "encode_rune r \<noteq> []"
  by (simp add: encode_rune_def Let_def)

lemma runes_ascii: "ascii s \<Longrightarrow> runes s = map of_char s"
  by (induction s) (auto simp: ascii_def)

lemma ascii_valid_utf8: "ascii s \<Longrightarrow> valid_utf8 s"
  by (induction s) (auto simp: ascii_def valid_utf8_def)

lemma ascii_runes_append: "ascii s \<Longrightarrow> runes (s @ t) = map of_char s @ runes t"
  by (induction s) (auto simp: ascii_def)

lemma decode_rune_width: "decode_rune c cs = (r, k) \<Longrightarrow> k \<le> length cs"
  by (auto simp: decode_rune_def Let_def split: prod.splits list.splits if_splits)

lemma length_runes_le: "length (runes s) \<le> length s"
proof (induction s rule: runes.induct)
  case 1
  then show ?case by simp
next
  case (2 c cs)
  then show ?case by (fastforce split: prod.splits)
qed

text \<open>Unicode scalar values. Decoding what was encoded gives the scalar values back.\<close>

definition scalar :: "nat \<Rightarrow> bool" where
  "scalar r \<longleftrightarrow> r < 55296 \<or> (57344 \<le> r \<and> r \<le> 1114111)"

lemma low6_cont: "low6 (char_of (128 + n mod 64)) = (n :: nat) mod 64"
proof -
  have "n mod 64 < 64" "(128 + n mod 64) mod 64 = n mod 64"
    using mod_mult_self1 [of "n mod 64" 2 64] by (simp_all add: add.commute)
  then show ?thesis by (simp add: low6_def)
qed

lemma cont_byte_cont: "cont_byte 128 191 (char_of (128 + (n :: nat) mod 64))"
proof -
  have "n mod 64 < (64::nat)" by simp
  then show ?thesis by (simp add: cont_byte_def)
qed

lemma decode_rune_2:
  assumes "128 \<le> r" "r < 2048"
  shows "decode_rune (char_of (192 + r div 64)) (char_of (128 + r mod 64) # t) = (r, 1)"
proof -
  have b: "192 + r div 64 < 224" "194 \<le> 192 + r div 64" using assms by auto
  have "cont_byte 128 191 (char_of (128 + r mod 64))" by (rule cont_byte_cont)
  moreover have "r div 64 * 64 + r mod 64 = r" by simp
  ultimately show ?thesis using b
    by (simp add: decode_rune_def Let_def second_range_def low6_cont)
qed

lemma second_range_3:
  "a < 16 \<Longrightarrow> b < (64::nat) \<Longrightarrow> (a = 0 \<Longrightarrow> 32 \<le> b) \<Longrightarrow> (a = 13 \<Longrightarrow> b < 32) \<Longrightarrow>
   case second_range (224 + a) of (lo, hi) \<Rightarrow> cont_byte lo hi (char_of (128 + b))"
  by (auto simp: second_range_def cont_byte_def)

lemma second_range_4:
  "a < 5 \<Longrightarrow> b < (64::nat) \<Longrightarrow> (a = 0 \<Longrightarrow> 16 \<le> b) \<Longrightarrow> (a = 4 \<Longrightarrow> b < 16) \<Longrightarrow>
   case second_range (240 + a) of (lo, hi) \<Rightarrow> cont_byte lo hi (char_of (128 + b))"
  by (auto simp: second_range_def cont_byte_def)

lemma decode_rune_3:
  assumes "2048 \<le> r" "r < 65536" "r < 55296 \<or> 57344 \<le> r"
  shows "decode_rune (char_of (224 + r div 4096))
     (char_of (128 + r div 64 mod 64) # char_of (128 + r mod 64) # t) = (r, 2)"
proof -
  let ?a = "r div 4096" and ?b = "r div 64 mod 64" and ?c = "r mod 64"
  have "r div 64 div 64 = ?a" by (simp flip: div_mult2_eq)
  then have r: "r = ?a * 4096 + ?b * 64 + ?c"
    using div_mult_mod_eq [of r 64] div_mult_mod_eq [of "r div 64" 64] by linarith
  have b: "?a < 16" "?b < 64" "?c < 64" using assms by auto
  have "?a = 0 \<Longrightarrow> 32 \<le> ?b" using assms(1) r b by linarith
  moreover have "?a = 13 \<Longrightarrow> ?b < 32" using assms(3) r b by linarith
  ultimately have c: "case second_range (224 + ?a) of (lo, hi) \<Rightarrow> cont_byte lo hi (char_of (128 + ?b))"
    using b by (intro second_range_3)
  have "cont_byte 128 191 (char_of (128 + ?c))" by (rule cont_byte_cont)
  with b c r show ?thesis
    by (auto simp: decode_rune_def Let_def low6_cont split: prod.splits)
qed

lemma decode_rune_4:
  assumes "65536 \<le> r" "r \<le> 1114111"
  shows "decode_rune (char_of (240 + r div 262144))
     (char_of (128 + r div 4096 mod 64) # char_of (128 + r div 64 mod 64) #
      char_of (128 + r mod 64) # t) = (r, 3)"
proof -
  let ?a = "r div 262144" and ?b = "r div 4096 mod 64" and ?c = "r div 64 mod 64" and ?d = "r mod 64"
  have "r div 64 div 64 = r div 4096" "r div 4096 div 64 = ?a" by (simp_all flip: div_mult2_eq)
  then have r: "r = ?a * 262144 + ?b * 4096 + ?c * 64 + ?d"
    using div_mult_mod_eq [of r 64] div_mult_mod_eq [of "r div 64" 64]
      div_mult_mod_eq [of "r div 4096" 64] by linarith
  have b: "?a < 5" "?b < 64" "?c < 64" "?d < 64" using assms by auto
  have "?a = 0 \<Longrightarrow> 16 \<le> ?b" using assms(1) r b by linarith
  moreover have "?a = 4 \<Longrightarrow> ?b < 16" using assms(2) r b by linarith
  ultimately have c: "case second_range (240 + ?a) of (lo, hi) \<Rightarrow> cont_byte lo hi (char_of (128 + ?b))"
    using b by (intro second_range_4)
  have "cont_byte 128 191 (char_of (128 + ?c))" "cont_byte 128 191 (char_of (128 + ?d))"
    by (rule cont_byte_cont)+
  with b c r show ?thesis
    by (auto simp: decode_rune_def Let_def low6_cont split: prod.splits)
qed

lemma encode_decode:
  assumes "scalar r"
  obtains c cs where "encode_rune r = c # cs" "\<And>t. decode_rune c (cs @ t) = (r, length cs)"
proof -
  from assms consider "r < 128" | "128 \<le> r" "r < 2048" 
    | "2048 \<le> r" "r < 65536" "r < 55296 \<or> 57344 \<le> r" | "65536 \<le> r" "r \<le> 1114111"
    unfolding scalar_def by linarith
  then show thesis
  proof cases
    case 1
    then show ?thesis by (intro that [of "char_of r" "[]"]) simp_all
  next
    case 2
    then show ?thesis
      by (intro that [of "char_of (192 + r div 64)" "[char_of (128 + r mod 64)]"])
        (simp_all add: encode_rune_def decode_rune_2 [simplified])
  next
    case 3
    then show ?thesis
      by (intro that [of "char_of (224 + r div 4096)"
          "[char_of (128 + r div 64 mod 64), char_of (128 + r mod 64)]"])
        (auto simp: encode_rune_def decode_rune_3 [simplified])
  next
    case 4
    then show ?thesis
      by (intro that [of "char_of (240 + r div 262144)"
          "[char_of (128 + r div 4096 mod 64), char_of (128 + r div 64 mod 64), char_of (128 + r mod 64)]"])
        (simp_all add: encode_rune_def decode_rune_4 [simplified])
  qed
qed

lemma runes_encode_append: "scalar r \<Longrightarrow> runes (encode_rune r @ t) = r # runes t"
  by (erule encode_decode) simp

lemma runes_string_of_runes: "\<forall>r \<in> set rs. scalar r \<Longrightarrow> runes (string_of_runes rs @ t) = rs @ runes t"
  by (induction rs) (simp_all add: runes_encode_append)

lemma valid_utf8_string_of_runes: "\<forall>r \<in> set rs. scalar r \<Longrightarrow> valid_utf8 (string_of_runes rs)"
  using runes_string_of_runes [of rs "[]"] by (simp add: valid_utf8_def)

end
