(* ===== verification/Gvk.thy ===== *)
theory Gvk
  imports Go_Strings
begin

text \<open>
  \<open>internal/util/gvk.go\<close>: the list of group/version/kind patterns given on the command line.
\<close>

text \<open>\<open>schema.GroupVersionKind\<close>.\<close>

datatype gvk = GVK (gvk_group: string) (gvk_version: string) (gvk_kind: string)

text \<open>
  The body of the loop of \<open>ParseGVKs\<close> for one entry: \<open>None\<close> is a \<open>continue\<close>. Entries with two
  parts are \<open>version/kind\<close>, with three \<open>group/version/kind\<close>; any other entry leaves version and
  kind empty and is skipped.
\<close>

definition parse_gvk_entry :: "string \<Rightarrow> gvk option" where
  "parse_gvk_entry raw =
     (let entry = trim_space raw in
      if entry = [] then None
      else
        let parts = split_on (CHR ''/'') entry;
            (grp, version, kind) =
              (case parts of
                 [v, k] \<Rightarrow> ([], v, k)
               | [g, v, k] \<Rightarrow> (g, v, k)
               | _ \<Rightarrow> ([], [], []))
        in if version = [] \<or> kind = [] then None else Some (GVK grp version kind))"

definition no_valid_gvks :: string where
  "no_valid_gvks = ''no valid watched GVKs specified''"

definition ParseGVKs :: "string \<Rightarrow> string + gvk list" where
  "ParseGVKs pattern =
     (let gvks = List.map_filter parse_gvk_entry (split_on (CHR '';'') pattern) in
      if gvks = [] then Inl no_valid_gvks else Inr gvks)"

text \<open>The pattern that stands for a list of GVKs, as the flag's documentation writes it.\<close>

definition show_gvk :: "gvk \<Rightarrow> string" where
  "show_gvk g =
     (if gvk_group g = [] then gvk_version g @ ''/'' @ gvk_kind g
      else gvk_group g @ ''/'' @ gvk_version g @ ''/'' @ gvk_kind g)"

text \<open>A GVK whose parts can be written in a pattern: no separators, no white space at the ends.\<close>

definition pattern_part :: "string \<Rightarrow> bool" where
  "pattern_part p \<longleftrightarrow> CHR ''/'' \<notin> set p \<and> CHR '';'' \<notin> set p \<and> trim_space p = p"

definition pattern_gvk :: "gvk \<Rightarrow> bool" where
  "pattern_gvk g \<longleftrightarrow>
     CHR ''/'' \<notin> set (gvk_group g @ gvk_version g @ gvk_kind g) \<and>
     CHR '';'' \<notin> set (gvk_group g @ gvk_version g @ gvk_kind g) \<and>
     gvk_version g \<noteq> [] \<and> gvk_kind g \<noteq> [] \<and> trim_space (show_gvk g) = show_gvk g"

lemma parse_gvk_entry_Some:
  assumes "parse_gvk_entry s = Some g"
  shows "gvk_version g \<noteq> []" "gvk_kind g \<noteq> []"
    "trim_space s \<in> {show_gvk g, ''/'' @ show_gvk g}"
proof -
  let ?ps = "split_on (CHR ''/'') (trim_space s)"
  have *: "join ''/'' ?ps = trim_space s" by (rule join_split_on)
  from assms show "gvk_version g \<noteq> []" "gvk_kind g \<noteq> []"
    by (auto simp: parse_gvk_entry_def Let_def split: if_splits list.splits prod.splits)
  from assms * show "trim_space s \<in> {show_gvk g, ''/'' @ show_gvk g}"
    by (auto simp: parse_gvk_entry_def Let_def show_gvk_def split: if_splits list.splits prod.splits)
qed

lemma parse_gvk_entry_show: "pattern_gvk g \<Longrightarrow> parse_gvk_entry (show_gvk g) = Some g"
  by (cases g) (auto simp: pattern_gvk_def parse_gvk_entry_def Let_def show_gvk_def)

lemma show_gvk_no_semicolon: "pattern_gvk g \<Longrightarrow> CHR '';'' \<notin> set (show_gvk g)"
  by (auto simp: pattern_gvk_def show_gvk_def)

section \<open>Properties\<close>

text \<open>C30: A non-empty list of kinds, written as the flag's documentation has it and joined by
  semicolons, is read back by \<open>ParseGVKs\<close> as it is, in its order.\<close>

theorem ParseGVKs_roundtrip:
  assumes "gs \<noteq> []" and "\<forall>g \<in> set gs. pattern_gvk g"
  shows "ParseGVKs (join '';'' (map show_gvk gs)) = Inr gs"
proof -
  have "split_on (CHR '';'') (join '';'' (map show_gvk gs)) = map show_gvk gs"
    using assms by (intro split_on_join) (auto simp: show_gvk_no_semicolon)
  moreover have "List.map_filter parse_gvk_entry (map show_gvk gs) = gs"
    using assms(2) by (induction gs) (auto simp: map_filter_simps parse_gvk_entry_show)
  ultimately show ?thesis using assms(1) by (simp add: ParseGVKs_def Let_def)
qed

theorem ParseGVKs_roundtrip_witness:
  "ParseGVKs ''v1/ConfigMap;apps/v1/Deployment'' =
     Inr [GVK [] ''v1'' ''ConfigMap'', GVK ''apps'' ''v1'' ''Deployment'']"
proof -
  let ?gs = "[GVK [] ''v1'' ''ConfigMap'', GVK ''apps'' ''v1'' ''Deployment'']"
  have "\<forall>g \<in> set ?gs. pattern_gvk g" by code_simp
  moreover have "join '';'' (map show_gvk ?gs) = ''v1/ConfigMap;apps/v1/Deployment''" by code_simp
  ultimately show ?thesis using ParseGVKs_roundtrip [of ?gs] by simp
qed

text \<open>Whatever the pattern, \<open>ParseGVKs\<close> either fails because no entry is a kind, or returns in order
  the kinds of the entries that are; each has a version and a kind and is its trimmed entry, up to an
  empty group written with a slash.\<close>

theorem ParseGVKs_sound:
  "(ParseGVKs p = Inl no_valid_gvks \<longleftrightarrow> (\<forall>e \<in> set (split_on (CHR '';'') p). parse_gvk_entry e = None)) \<and>
   (\<forall>gs. ParseGVKs p = Inr gs \<longrightarrow> gs \<noteq> [] \<and>
     (\<forall>g \<in> set gs. gvk_version g \<noteq> [] \<and> gvk_kind g \<noteq> [] \<and>
        (\<exists>e \<in> set (split_on (CHR '';'') p). trim_space e \<in> {show_gvk g, ''/'' @ show_gvk g})))"
proof -
  let ?es = "split_on (CHR '';'') p"
  have empty: "List.map_filter parse_gvk_entry es = [] \<longleftrightarrow> (\<forall>e \<in> set es. parse_gvk_entry e = None)" for es
    by (induction es) (auto simp: map_filter_simps split: option.split)
  have mem: "g \<in> set (List.map_filter parse_gvk_entry es) \<Longrightarrow> \<exists>e \<in> set es. parse_gvk_entry e = Some g" for g es
    by (induction es) (auto simp: map_filter_simps split: option.splits)
  have ok: "gvk_version g \<noteq> [] \<and> gvk_kind g \<noteq> [] \<and> (\<exists>e \<in> set ?es. trim_space e \<in> {show_gvk g, ''/'' @ show_gvk g})"
    if "g \<in> set (List.map_filter parse_gvk_entry ?es)" for g
    using mem [OF that] parse_gvk_entry_Some by blast
  show ?thesis
    using empty [of ?es] ok unfolding ParseGVKs_def Let_def by (metis sum.inject(2) sum.distinct(1))
qed

theorem ParseGVKs_sound_witness:
  "ParseGVKs ''v1/Pod;;bad'' = Inr [GVK [] ''v1'' ''Pod''] \<and>
   (\<forall>g \<in> set [GVK [] ''v1'' ''Pod'']. gvk_version g \<noteq> [])"
proof -
  have "ParseGVKs ''v1/Pod;;bad'' = Inr [GVK [] ''v1'' ''Pod'']" by code_simp
  with ParseGVKs_sound [of "''v1/Pod;;bad''"] show ?thesis by blast
qed

end
