(* ===== verification/Go_Time.thy ===== *)
theory Go_Time
  imports Go_Strings
begin

text \<open>
  The part of Go's \<open>time\<close> package the operator uses: durations (signed 64 bit counts of
  nanoseconds, here integers with the bounds and the wrap-around written out), \<open>ParseDuration\<close> with
  its overflow checks and its float64 rounding of fractions, instants, and \<open>Time.Sub\<close>.
\<close>

type_synonym duration = int

definition max_duration :: int where "max_duration = 2 ^ 63 - 1"
definition min_duration :: int where "min_duration = - (2 ^ 63)"

definition int64 :: "int \<Rightarrow> bool" where
  "int64 d \<longleftrightarrow> min_duration \<le> d \<and> d \<le> max_duration"

text \<open>Reduction to the signed 64 bit range, as Go's arithmetic on \<open>time.Duration\<close> does it.\<close>

definition wrap64 :: "int \<Rightarrow> int" where
  "wrap64 x = (x + 2 ^ 63) mod 2 ^ 64 - 2 ^ 63"

lemma wrap64_id [simp]: "int64 x \<Longrightarrow> wrap64 x = x"
  by (simp add: wrap64_def int64_def min_duration_def max_duration_def)

lemma wrap64_int64: "int64 (wrap64 x)"
proof -
  have "0 \<le> (x + 2 ^ 63) mod 2 ^ 64" "(x + 2 ^ 63) mod 2 ^ 64 < 2 ^ 64" by simp_all
  then show ?thesis by (simp add: wrap64_def int64_def min_duration_def max_duration_def)
qed

definition second :: duration where "second = 1000000000"

section \<open>Rounding to float64\<close>

text \<open>
  A positive float64 in the normal range as a fraction. \<open>round53 n d\<close> is \<open>n / d\<close> rounded to 53
  significant bits, ties to even, as a fraction. \<open>ParseDuration\<close> computes with values between
  \<open>10^-19\<close> and \<open>2^64\<close> only, where float64 is neither subnormal nor infinite.
\<close>

fun bit_len :: "nat \<Rightarrow> nat" where
  "bit_len n = (if n = 0 then 0 else Suc (bit_len (n div 2)))"

declare bit_len.simps [simp del]

definition round_half_even :: "nat \<Rightarrow> nat \<Rightarrow> nat" where
  "round_half_even n d =
     (let q = n div d; r = n mod d
      in if d < 2 * r \<or> (d = 2 * r \<and> odd q) then Suc q else q)"

definition round53 :: "nat \<Rightarrow> nat \<Rightarrow> nat \<times> nat" where
  "round53 n d =
     (if n = 0 then (0, 1)
      else
        let k = int (bit_len n) - int (bit_len d);
            e = (if (if k \<ge> 0 then d * 2 ^ nat k \<le> n else d \<le> n * 2 ^ nat (- k)) then k else k - 1);
            s = 52 - e
        in if s \<ge> 0 then (round_half_even (n * 2 ^ nat s) d, 2 ^ nat s)
           else (round_half_even n (d * 2 ^ nat (- s)) * 2 ^ nat (- s), 1))"

section \<open>ParseDuration\<close>

text \<open>\<open>time.quote\<close>, used in the error texts.\<close>

definition hex_digit :: "nat \<Rightarrow> char" where
  "hex_digit d = (if d < 10 then char_of (48 + d) else char_of (87 + d))"

definition time_quote :: "string \<Rightarrow> string" where
  "time_quote s = [CHR 0x22] @
     concat (map (\<lambda>c. let n = of_char c :: nat in
        if n \<ge> 128 \<or> n < 32 then [CHR 0x5C, CHR ''x'', hex_digit (n div 16), hex_digit (n mod 16)]
        else if c = CHR 0x22 \<or> c = CHR 0x5C then [CHR 0x5C, c] else [c]) s) @ [CHR 0x22]"

definition invalid_duration :: "string \<Rightarrow> string" where
  "invalid_duration orig = ''time: invalid duration '' @ time_quote orig"

fun leading_int :: "nat \<Rightarrow> string \<Rightarrow> (nat \<times> string) option" where
  "leading_int x [] = Some (x, [])"
| "leading_int x (c # cs) =
     (if \<not> is_digit c then Some (x, c # cs)
      else if x > 2 ^ 63 div 10 then None
      else if x * 10 + digit_val c > 2 ^ 63 then None
      else leading_int (x * 10 + digit_val c) cs)"

fun leading_fraction :: "nat \<Rightarrow> nat \<Rightarrow> bool \<Rightarrow> string \<Rightarrow> nat \<times> nat \<times> string" where
  "leading_fraction x scale overflow [] = (x, scale, [])"
| "leading_fraction x scale overflow (c # cs) =
     (if \<not> is_digit c then (x, scale, c # cs)
      else if overflow then leading_fraction x scale overflow cs
      else if x > (2 ^ 63 - 1) div 10 then leading_fraction x scale True cs
      else if x * 10 + digit_val c > 2 ^ 63 then leading_fraction x scale True cs
      else leading_fraction (x * 10 + digit_val c) (scale * 10) overflow cs)"

definition unit_map :: "string \<Rightarrow> nat option" where
  "unit_map = map_of
     [(''ns'', 1), (''us'', 1000), ([CHR 0xC2, CHR 0xB5, CHR ''s''], 1000),
      ([CHR 0xCE, CHR 0xBC, CHR ''s''], 1000), (''ms'', 1000000), (''s'', 1000000000),
      (''m'', 60000000000), (''h'', 3600000000000)]"

definition unit_char :: "char \<Rightarrow> bool" where
  "unit_char c \<longleftrightarrow> c \<noteq> CHR ''.'' \<and> \<not> is_digit c"

text \<open>\<open>uint64(float64(f) * (float64(unit) / scale))\<close>.\<close>

definition fraction_nanos :: "nat \<Rightarrow> nat \<Rightarrow> nat \<Rightarrow> nat" where
  "fraction_nanos f unit scale =
     (let a = round53 f 1; b = round53 unit scale;
          p = round53 (fst a * fst b) (snd a * snd b)
      in fst p div snd p)"

text \<open>The optional fraction after the integer part: its digits, scale, the rest, and \<open>post\<close>.\<close>

definition consume_fraction :: "string \<Rightarrow> nat \<times> nat \<times> string \<times> bool" where
  "consume_fraction s =
     (case s of
        c # cs \<Rightarrow>
          if c = CHR ''.'' then
            (case leading_fraction 0 1 False cs of
               (f, scale, s') \<Rightarrow> (f, scale, s', length s' \<noteq> length cs))
          else (0, 1, s, False)
      | [] \<Rightarrow> (0, 1, s, False))"

text \<open>One round of the loop: a number, its fraction and its unit, in nanoseconds, and the rest.\<close>

definition duration_component :: "string \<Rightarrow> string \<Rightarrow> string + nat \<times> string" where
  "duration_component orig s =
     (case leading_int 0 s of
        None \<Rightarrow> Inl (invalid_duration orig)
      | Some (v, s1) \<Rightarrow>
          let pre = (length s1 \<noteq> length s);
              (f, scale, s2, post) = consume_fraction s1;
              u = takeWhile unit_char s2;
              s3 = dropWhile unit_char s2
          in if \<not> pre \<and> \<not> post then Inl (invalid_duration orig)
             else if u = [] then Inl (''time: missing unit in duration '' @ time_quote orig)
             else (case unit_map u of
                 None \<Rightarrow> Inl (''time: unknown unit '' @ time_quote u @ '' in duration '' @ time_quote orig)
               | Some unit \<Rightarrow>
                   if v > 2 ^ 63 div unit then Inl (invalid_duration orig)
                   else
                     let w = v * unit + (if f > 0 then fraction_nanos f unit scale else 0)
                     in if f > 0 \<and> w > 2 ^ 63 then Inl (invalid_duration orig) else Inr (w, s3)))"

lemma leading_int_shorter: "leading_int x s = Some (v, r) \<Longrightarrow> length r \<le> length s"
  by (induction x s rule: leading_int.induct) (auto split: if_splits)

lemma leading_fraction_shorter:
  "leading_fraction x sc ov s = (f, sc', r) \<Longrightarrow> length r \<le> length s"
  by (induction x sc ov s rule: leading_fraction.induct) (auto split: if_splits)

lemma consume_fraction_shorter:
  "consume_fraction s = (f, sc, r, p) \<Longrightarrow> length r \<le> length s"
  by (auto simp: consume_fraction_def dest: leading_fraction_shorter
      split: list.splits if_splits prod.splits)

lemma duration_component_shorter:
  assumes "duration_component orig s = Inr (w, r)"
  shows "length r < length s"
proof -
  obtain v s1 where s1: "leading_int 0 s = Some (v, s1)"
    using assms by (cases "leading_int 0 s") (auto simp: duration_component_def)
  from leading_int_shorter [OF s1] have l1: "length s1 \<le> length s" .
  obtain f sc s2 p where s2: "consume_fraction s1 = (f, sc, s2, p)" by (metis prod.exhaust)
  from consume_fraction_shorter [OF s2] have l2: "length s2 \<le> length s1" .
  from assms s1 s2 have r: "r = dropWhile unit_char s2" "takeWhile unit_char s2 \<noteq> []"
    by (auto simp: duration_component_def Let_def split: if_splits option.splits)
  from r(2) have "length r < length s2"
    by (metis r(1) length_append length_greater_0_conv less_add_same_cancel2 takeWhile_dropWhile_id)
  with l1 l2 show ?thesis by linarith
qed

function parse_components :: "string \<Rightarrow> string \<Rightarrow> nat \<Rightarrow> string + nat" where
  "parse_components orig s d =
     (if s = [] then Inr d
      else (case duration_component orig s of
          Inl e \<Rightarrow> Inl e
        | Inr (v, s') \<Rightarrow>
            if (d + v) mod 2 ^ 64 > 2 ^ 63 then Inl (invalid_duration orig)
            else parse_components orig s' ((d + v) mod 2 ^ 64)))"
  by pat_completeness auto
termination
  by (relation "measure (\<lambda>(orig, s, d). length s)") (auto dest: duration_component_shorter)

declare parse_components.simps [simp del]

definition ParseDuration :: "string \<Rightarrow> string + duration" where
  "ParseDuration s =
     (let (neg, body) =
        (case s of
           c # cs \<Rightarrow> if c = CHR ''-'' \<or> c = CHR ''+'' then (c = CHR ''-'', cs) else (False, s)
         | [] \<Rightarrow> (False, s))
      in if body = ''0'' then Inr 0
         else if body = [] then Inl (invalid_duration s)
         else (case parse_components s body 0 of
             Inl e \<Rightarrow> Inl e
           | Inr d \<Rightarrow>
               if neg then Inr (- int d)
               else if d > 2 ^ 63 - 1 then Inl (invalid_duration s)
               else Inr (int d)))"

section \<open>Bounds and well-formed durations\<close>

lemma parse_components_bound:
  "parse_components orig s d = Inr r \<Longrightarrow> d \<le> 2 ^ 63 \<Longrightarrow> r \<le> 2 ^ 63"
proof (induction orig s d rule: parse_components.induct)
  case (1 orig s d)
  show ?case
  proof (cases "s = []")
    case True
    with 1 show ?thesis by (simp add: parse_components.simps)
  next
    case False
    with 1 show ?thesis
      by (auto simp: parse_components.simps [of orig s d] split: sum.splits prod.splits if_splits)
  qed
qed

lemma ParseDuration_int64: "ParseDuration s = Inr d \<Longrightarrow> int64 d"
proof -
  assume *: "ParseDuration s = Inr d"
  have "int r \<le> 2 ^ 63" if "parse_components s b 0 = Inr r" for b r
    using parse_components_bound [OF that] by (metis le0 of_nat_le_iff of_nat_numeral of_nat_power)
  with * show ?thesis
    by (fastforce simp: ParseDuration_def Let_def int64_def min_duration_def max_duration_def
        split: list.splits if_splits sum.splits)
qed

lemma leading_int_digits:
  "list_all is_digit ds \<Longrightarrow> nat_of_digits x ds \<le> 2 ^ 63 \<Longrightarrow>
   (case r of [] \<Rightarrow> True | c # _ \<Rightarrow> \<not> is_digit c) \<Longrightarrow>
   leading_int x (ds @ r) = Some (nat_of_digits x ds, r)"
proof (induction ds arbitrary: x)
  case Nil
  then show ?case by (cases r) simp_all
next
  case (Cons d ds)
  have mono: "y \<le> nat_of_digits y ds" for y
    by (induction ds arbitrary: y) (simp, metis nat_of_digits_simps(2) add_leE dual_order.trans mult.commute mult_le_mono1 nat_mult_1 one_le_numeral)
  have "x * 10 + digit_val d \<le> 2 ^ 63"
    using mono [of "x * 10 + digit_val d"] Cons.prems(2) by simp
  moreover from this have "x \<le> 2 ^ 63 div 10" by simp
  ultimately show ?case using Cons by simp
qed

lemma show_nat_Cons: obtains c cs where "show_nat n = c # cs" "is_digit c"
  using show_nat_digits [of n] by (cases "show_nat n") auto

lemma unit_map_chars: "unit_map u = Some k \<Longrightarrow> u \<noteq> [] \<and> list_all unit_char u \<and> 0 < k"
  by (auto simp: unit_map_def unit_char_def is_digit_def split: if_splits)

text \<open>A whole number of a unit is read exactly, as long as it fits.\<close>

lemma ParseDuration_show:
  assumes u: "unit_map u = Some k" and fits: "n * k \<le> 2 ^ 63 - 1"
  shows "ParseDuration (show_nat n @ u) = Inr (int (n * k))"
proof -
  from unit_map_chars [OF u] obtain c cs where uc: "u = c # cs" "unit_char c" "\<not> is_digit c"
    and all: "list_all unit_char u" and k: "0 < k"
    by (cases u) (auto simp: unit_char_def)
  have n: "n \<le> 2 ^ 63" using fits k by (metis One_nat_def Suc_leI diff_le_self le_trans mult.right_neutral mult_le_mono2)
  then have li: "leading_int 0 (show_nat n @ u) = Some (n, u)"
    using uc by (subst leading_int_digits) (simp_all add: show_nat_digits)
  have "n \<le> 2 ^ 63 div k" using fits k by (simp add: less_eq_div_iff_mult_less_eq)
  moreover have "consume_fraction u = (0, 1, u, False)"
    using uc by (simp add: consume_fraction_def unit_char_def)
  moreover have "takeWhile unit_char u = u" "dropWhile unit_char u = []" "takeWhile unit_char cs = cs"
    using all uc(1) by (simp_all add: list_all_iff)
  ultimately have dc: "duration_component orig (show_nat n @ u) = Inr (n * k, [])" for orig
    using li u uc
    by (simp add: duration_component_def Let_def del: takeWhile_eq_all_conv dropWhile_eq_Nil_conv)
  obtain d ds where d: "show_nat n = d # ds" "is_digit d" by (rule show_nat_Cons)
  then have "d \<noteq> CHR ''-''" "d \<noteq> CHR ''+''" by (auto simp: is_digit_def)
  with d dc fits uc show ?thesis
    by (auto simp: ParseDuration_def parse_components.simps Let_def)
qed

section \<open>Instants\<close>

text \<open>
  A \<open>time.Time\<close>: the wall clock in nanoseconds since the Unix epoch, and the monotonic clock
  reading that \<open>time.Now\<close> adds and that a value read from the API server does not have. Equality of
  the model is \<open>reflect.DeepEqual\<close>, which sees the monotonic reading; \<open>time_equal\<close> is \<open>Time.Equal\<close>.
\<close>

datatype go_time = GoTime (wall_ns: int) (mono_ns: "int option")

definition saturate :: "int \<Rightarrow> duration" where
  "saturate x = max min_duration (min max_duration x)"

definition time_sub :: "go_time \<Rightarrow> go_time \<Rightarrow> duration" where
  "time_sub t u =
     (case (mono_ns t, mono_ns u) of
        (Some a, Some b) \<Rightarrow> saturate (a - b)
      | _ \<Rightarrow> saturate (wall_ns t - wall_ns u))"

definition time_equal :: "go_time \<Rightarrow> go_time \<Rightarrow> bool" where
  "time_equal t u =
     (case (mono_ns t, mono_ns u) of
        (Some a, Some b) \<Rightarrow> a = b
      | _ \<Rightarrow> wall_ns t = wall_ns u)"

text \<open>\<open>Time.IsZero\<close>: January 1 of year 1.\<close>

definition time_is_zero :: "go_time \<Rightarrow> bool" where
  "time_is_zero t \<longleftrightarrow> wall_ns t = - 62135596800 * second"

lemma saturate_int64: "int64 (saturate x)"
  by (simp add: saturate_def int64_def min_duration_def max_duration_def)

lemma time_sub_int64: "int64 (time_sub t u)"
  by (simp add: time_sub_def saturate_int64 split: option.splits)

section \<open>Properties\<close>

text \<open>Every duration \<open>ParseDuration\<close> returns is an int64, and a number with a unit is read as the
  product whenever that fits; the sign is applied to the whole.\<close>

theorem ParseDuration_units:
  assumes "unit_map u = Some k" "n * k \<le> 2 ^ 63 - 1"
  shows "ParseDuration (show_nat n @ u) = Inr (int (n * k)) \<and> int64 (int (n * k))"
  using ParseDuration_show [OF assms] ParseDuration_int64 by blast

theorem ParseDuration_units_witness:
  "ParseDuration ''30s'' = Inr 30000000000 \<and> int64 30000000000"
proof -
  have "show_nat 30 @ ''s'' = ''30s''" by code_simp
  moreover have "unit_map ''s'' = Some 1000000000" by (simp add: unit_map_def)
  ultimately show ?thesis using ParseDuration_units [of "''s''" 1000000000 30] by simp
qed

end
