(* ===== verification/Api_Types.thy ===== *)
theory Api_Types
  imports Go_Time
begin

text \<open>
  \<open>api/v1alpha1/databasequeryresource_types.go\<close>: the custom resource. A pointer that may be nil is
  an option, a slice or map whose nil and empty values \<open>reflect.DeepEqual\<close> tells apart is an
  optional list or map.
\<close>

record secret_ref =
  sr_name :: string
  sr_namespace :: string
  uriKey :: string
  hostKey :: string
  readonlyHostKey :: string
  portKey :: string
  userKey :: string
  passwordKey :: string
  dbNameKey :: string
  sslModeKey :: string

record database_spec =
  db_type :: string
  connectionSecretRef :: secret_ref

record change_detection =
  cd_enabled :: bool
  tableName :: string
  timestampColumn :: string
  changePollInterval :: string

record dbqr_spec =
  pollInterval :: string
  database :: database_spec
  query :: string
  resource_template :: string
  prune_opt :: "bool option"
  statusUpdateQueryTemplate :: string
  changeDetection :: "change_detection option"

text \<open>\<open>metav1.Condition\<close>; the status is one of the strings \<open>True\<close>, \<open>False\<close> and \<open>Unknown\<close>.\<close>

record condition =
  c_type :: string
  c_status :: string
  c_observedGeneration :: int
  c_lastTransitionTime :: go_time
  c_reason :: string
  c_message :: string

record dbqr_status =
  conditions :: "condition list option"
  lastPollTime :: "go_time option"
  managedResources :: "string list option"
  observedGeneration :: int
  lastChangeCheckTime :: "go_time option"
  lastReconcileTime :: "go_time option"
  resourceVersions :: "string smap option"

record dbqr =
  d_name :: string
  d_namespace :: string
  d_uid :: string
  d_resourceVersion :: string
  d_generation :: int
  d_finalizers :: "string list"
  d_deletionTimestamp :: "go_time option"
  spec :: dbqr_spec
  status :: dbqr_status

definition GetPrune :: "dbqr_spec \<Rightarrow> bool" where
  "GetPrune s = (case prune_opt s of None \<Rightarrow> True | Some b \<Rightarrow> b)"

text \<open>The elements of \<open>status.managedResources\<close>: ranging over a nil slice does nothing.\<close>

definition managed_list :: "dbqr_status \<Rightarrow> string list" where
  "managed_list st = (case managedResources st of None \<Rightarrow> [] | Some xs \<Rightarrow> xs)"

lemma managed_list_Some [simp]: "managed_list (st\<lparr>managedResources := Some xs\<rparr>) = xs"
  by (simp add: managed_list_def)

end
