(* ===== verification/Go_Json.thy ===== *)
theory Go_Json
  imports Go_Time
begin

text \<open>
  Go's \<open>encoding/json\<close> as the operator uses it: \<open>json.Marshal\<close> of decoded values and
  \<open>json.Unmarshal\<close> into \<open>interface{}\<close>.

  \<^item> \<open>gval\<close> is a decoded value (\<open>interface{}\<close>): nil, bool, int64, float64, string, slice, map.
  \<^item> \<open>jv\<close> is the syntax tree of a JSON text, with the members of an object in their order and
    number literals unread.
  \<^item> Marshalling is \<open>tree_of\<close> followed by \<open>print_json\<close>, unmarshalling is \<open>parse_json\<close> followed by
    \<open>to_gval\<close>.

  The main lemma is the round trip: for values without floats and with valid UTF-8 strings,
  unmarshalling the marshalled text gives \<open>json_norm\<close> of the value, where every integer has become
  the nearest float64.
\<close>

section \<open>float64\<close>

text \<open>A finite float64 is \<open>\<plusminus> mant * 2 ^ expo\<close>; the two zeros are one value, as Go's \<open>==\<close> has it.\<close>

datatype f64 = F64 (f64_neg: bool) (f64_mant: nat) (f64_expo: int) | F64_Inf bool | F64_NaN

definition f64_of_ratio :: "bool \<Rightarrow> nat \<Rightarrow> nat \<Rightarrow> f64" where
  "f64_of_ratio neg n d =
     (if n = 0 then F64 False 0 0
      else
        let k = int (bit_len n) - int (bit_len d);
            e = (if (if k \<ge> 0 then d * 2 ^ nat k \<le> n else d \<le> n * 2 ^ nat (- k)) then k else k - 1);
            s = max (e - 52) (- 1074);
            q = (if s \<ge> 0 then round_half_even n (d * 2 ^ nat s)
                 else round_half_even (n * 2 ^ nat (- s)) d);
            (q', s') = (if q = 2 ^ 53 then (2 ^ 52, s + 1) else (q, s))
        in if q' = 0 then F64 False 0 0
           else if s' > 971 then F64_Inf neg else F64 neg q' s')"

definition f64_of_int :: "int \<Rightarrow> f64" where
  "f64_of_int i = f64_of_ratio (i < 0) (nat \<bar>i\<bar>) 1"

text \<open>
  \<open>strconv.FormatFloat(f, _, -1, 64)\<close>: the fewest significant digits (at most 17) that read back as
  the value. \<open>dec_expo\<close> is the decimal exponent of the first digit.
\<close>

fun neg_expo :: "nat \<Rightarrow> nat \<Rightarrow> nat \<Rightarrow> nat \<Rightarrow> nat" where
  "neg_expo 0 n d j = j"
| "neg_expo (Suc fuel) n d j = (if d \<le> n * 10 ^ j then j else neg_expo fuel n d (Suc j))"

definition dec_expo :: "nat \<Rightarrow> nat \<Rightarrow> int" where
  "dec_expo n d = (if d \<le> n then int (length (show_nat (n div d))) - 1 else - int (neg_expo 330 n d 1))"

definition round_digits :: "nat \<Rightarrow> nat \<Rightarrow> int \<Rightarrow> nat \<Rightarrow> nat \<times> int" where
  "round_digits n d k m =
     (let p = int m - 1 - k;
          q = (if p \<ge> 0 then round_half_even (n * 10 ^ nat p) d
               else round_half_even n (d * 10 ^ nat (- p)))
      in if q = 10 ^ m then (q div 10, k + 1) else (q, k))"

definition digits_value :: "bool \<Rightarrow> nat \<Rightarrow> int \<Rightarrow> f64" where
  "digits_value neg q p =
     (if p \<ge> 0 then f64_of_ratio neg (q * 10 ^ nat p) 1 else f64_of_ratio neg q (10 ^ nat (- p)))"

fun shortest :: "nat \<Rightarrow> bool \<Rightarrow> nat \<Rightarrow> nat \<Rightarrow> int \<Rightarrow> nat \<Rightarrow> f64 \<Rightarrow> nat \<times> int" where
  "shortest 0 neg n d k m f = round_digits n d k m"
| "shortest (Suc fuel) neg n d k m f =
     (case round_digits n d k m of
        (q, k') \<Rightarrow> if digits_value neg q (k' - int m + 1) = f then (q, k')
                   else shortest fuel neg n d k (Suc m) f)"

definition strip_zeros :: "string \<Rightarrow> string" where
  "strip_zeros ds = rev (dropWhile (\<lambda>c. c = CHR ''0'') (rev ds))"

definition show_int :: "int \<Rightarrow> string" where
  "show_int i = (if i < 0 then CHR ''-'' # show_nat (nat (- i)) else show_nat (nat i))"

text \<open>The layout of \<open>encoding/json\<close>: exponent form below 1e-6 and from 1e21 on.\<close>

definition layout_digits :: "string \<Rightarrow> int \<Rightarrow> string" where
  "layout_digits ds k =
     (if k < - 6 \<or> k \<ge> 21 then
        take 1 ds @ (if length ds = 1 then [] else CHR ''.'' # drop 1 ds) @
        (if k < 0 then ''e-'' else ''e+'') @
        (if 0 \<le> k \<and> k < 10 then ''0'' else []) @ show_nat (nat \<bar>k\<bar>)
      else if k < 0 then ''0.'' @ replicate (nat (- k) - 1) (CHR ''0'') @ ds
      else if length ds \<le> nat k + 1 then ds @ replicate (nat k + 1 - length ds) (CHR ''0'')
      else take (nat k + 1) ds @ CHR ''.'' # drop (nat k + 1) ds)"

definition show_f64 :: "f64 \<Rightarrow> string" where
  "show_f64 f =
     (case f of
        F64 neg m e \<Rightarrow>
          if m = 0 then ''0''
          else
            let (n, d) = (if e \<ge> 0 then (m * 2 ^ nat e, 1) else (m, 2 ^ nat (- e)));
                (q, k) = shortest 16 neg n d (dec_expo n d) 1 f
            in (if neg then ''-'' else []) @ layout_digits (strip_zeros (show_nat q)) k
      | _ \<Rightarrow> [])"

section \<open>Values and trees\<close>

datatype gval =
    GNil
  | GBool bool
  | GInt int
  | GFloat f64
  | GStr string
  | GArr "gval list"
  | GObj "gval smap"

datatype jv =
    JNull
  | JBool bool
  | JNum string
  | JStr string
  | JArr "jv list"
  | JObj "(string \<times> jv) list"

text \<open>\<open>json.Marshal\<close>: infinities and NaN are the unsupported values. Maps are written in the order
  of their keys.\<close>

primrec json_supported :: "gval \<Rightarrow> bool" where
  "json_supported GNil = True"
| "json_supported (GBool b) = True"
| "json_supported (GInt i) = True"
| "json_supported (GFloat f) = (case f of F64 _ _ _ \<Rightarrow> True | _ \<Rightarrow> False)"
| "json_supported (GStr s) = True"
| "json_supported (GArr vs) = list_all id (map json_supported vs)"
| "json_supported (GObj m) = fmpred (\<lambda>_ b. b) (fmmap json_supported m)"

primrec tree_of :: "gval \<Rightarrow> jv" where
  "tree_of GNil = JNull"
| "tree_of (GBool b) = JBool b"
| "tree_of (GInt i) = JNum (show_int i)"
| "tree_of (GFloat f) = JNum (show_f64 f)"
| "tree_of (GStr s) = JStr s"
| "tree_of (GArr vs) = JArr (map tree_of vs)"
| "tree_of (GObj m) = JObj (sorted_list_of_fmap (fmmap tree_of m))"

section \<open>Printing\<close>

definition escape_ascii :: "char \<Rightarrow> string" where
  "escape_ascii c =
     (let n = of_char c :: nat in
      if c = CHR 0x22 \<or> c = CHR 0x5C then [CHR 0x5C, c]
      else if n = 8 then [CHR 0x5C, CHR ''b'']
      else if n = 12 then [CHR 0x5C, CHR ''f'']
      else if n = 10 then [CHR 0x5C, CHR ''n'']
      else if n = 13 then [CHR 0x5C, CHR ''r'']
      else if n = 9 then [CHR 0x5C, CHR ''t'']
      else if n < 32 \<or> c = CHR ''<'' \<or> c = CHR ''>'' \<or> c = CHR ''&'' then
        [CHR 0x5C, CHR ''u'', CHR ''0'', CHR ''0'', hex_digit (n div 16), hex_digit (n mod 16)]
      else [c])"

fun json_escape :: "string \<Rightarrow> string" where
  "json_escape [] = []"
| "json_escape (c # cs) =
     (if (of_char c :: nat) < 128 then escape_ascii c @ json_escape cs
      else (case decode_rune c cs of (r, k) \<Rightarrow>
        (if r = rune_error \<and> k = 0 then CHR 0x5C # ''ufffd''
         else if r = 8232 \<or> r = 8233 then CHR 0x5C # ''u202'' @ [hex_digit (r mod 16)]
         else c # take k cs) @ json_escape (drop k cs)))"

definition json_string :: "string \<Rightarrow> string" where
  "json_string s = CHR 0x22 # json_escape s @ [CHR 0x22]"

fun print_json :: "jv \<Rightarrow> string"
  and print_elems :: "jv list \<Rightarrow> string"
  and print_members :: "(string \<times> jv) list \<Rightarrow> string" where
  "print_json JNull = ''null''"
| "print_json (JBool b) = (if b then ''true'' else ''false'')"
| "print_json (JNum l) = l"
| "print_json (JStr s) = json_string s"
| "print_json (JArr vs) = CHR ''['' # print_elems vs @ '']''"
| "print_json (JObj ms) = CHR ''{'' # print_members ms @ ''}''"
| "print_elems [] = []"
| "print_elems [v] = print_json v"
| "print_elems (v # w # vs) = print_json v @ '','' @ print_elems (w # vs)"
| "print_members [] = []"
| "print_members [(k, v)] = json_string k @ '':'' @ print_json v"
| "print_members ((k, v) # w # ms) = json_string k @ '':'' @ print_json v @ '','' @ print_members (w # ms)"

definition json_marshal :: "gval \<Rightarrow> string option" where
  "json_marshal v = (if json_supported v then Some (print_json (tree_of v)) else None)"

section \<open>Parsing\<close>

definition is_ws :: "char \<Rightarrow> bool" where
  "is_ws c \<longleftrightarrow> c \<in> {CHR '' '', CHR 0x09, CHR 0x0A, CHR 0x0D}"

definition skip_ws :: "string \<Rightarrow> string" where
  "skip_ws = dropWhile is_ws"

definition hex_val :: "char \<Rightarrow> nat option" where
  "hex_val c =
     (let n = of_char c :: nat in
      if is_digit c then Some (n - 48)
      else if 97 \<le> n \<and> n \<le> 102 then Some (n - 87)
      else if 65 \<le> n \<and> n \<le> 70 then Some (n - 55) else None)"

definition hex4 :: "string \<Rightarrow> nat option" where
  "hex4 s =
     (case s of
        a # b # c # d # _ \<Rightarrow>
          (case (hex_val a, hex_val b, hex_val c, hex_val d) of
             (Some w, Some x, Some y, Some z) \<Rightarrow> Some (w * 4096 + x * 256 + y * 16 + z)
           | _ \<Rightarrow> None)
      | _ \<Rightarrow> None)"

definition simple_escape :: "char \<Rightarrow> char option" where
  "simple_escape = map_of
     [(CHR 0x22, CHR 0x22), (CHR 0x5C, CHR 0x5C), (CHR ''/'', CHR ''/''), (CHR ''b'', CHR 0x08),
      (CHR ''f'', CHR 0x0C), (CHR ''n'', CHR 0x0A), (CHR ''r'', CHR 0x0D), (CHR ''t'', CHR 0x09)]"

text \<open>The rune of a \<open>\u\<close> escape and the number of bytes after it that belong to a surrogate pair.
  A surrogate without its other half is U+FFFD.\<close>

definition escaped_rune :: "nat \<Rightarrow> string \<Rightarrow> nat \<times> nat" where
  "escaped_rune r rest =
     (if 55296 \<le> r \<and> r < 57344 then
        (case rest of
           a # b # ds \<Rightarrow>
             (case hex4 ds of
                Some r2 \<Rightarrow>
                  if a = CHR 0x5C \<and> b = CHR ''u'' \<and> r < 56320 \<and> 56320 \<le> r2 \<and> r2 < 57344
                  then ((r - 55296) * 1024 + (r2 - 56320) + 65536, 6) else (rune_error, 0)
              | None \<Rightarrow> (rune_error, 0))
         | _ \<Rightarrow> (rune_error, 0))
      else (r, 0))"

text \<open>A string literal after its opening quote: the string and the text after the closing one.\<close>

fun parse_string :: "string \<Rightarrow> (string \<times> string) option" where
  "parse_string [] = None"
| "parse_string (c # cs) =
     (if c = CHR 0x22 then Some ([], cs)
      else if c = CHR 0x5C then
        (case cs of
           [] \<Rightarrow> None
         | e # ds \<Rightarrow>
             if e = CHR ''u'' then
               (case hex4 ds of
                  None \<Rightarrow> None
                | Some r \<Rightarrow>
                    (case escaped_rune r (drop 4 ds) of
                       (r', k) \<Rightarrow> map_option (apfst (append (encode_rune r'))) (parse_string (drop (4 + k) ds))))
             else
               (case simple_escape e of
                  None \<Rightarrow> None
                | Some x \<Rightarrow> map_option (apfst (Cons x)) (parse_string ds)))
      else if (of_char c :: nat) < 32 then None
      else if (of_char c :: nat) < 128 then map_option (apfst (Cons c)) (parse_string cs)
      else (case decode_rune c cs of
              (r, k) \<Rightarrow> map_option (apfst (append (encode_rune r))) (parse_string (drop k cs))))"

text \<open>A number literal: its text and the rest.\<close>

definition digits_part :: "string \<Rightarrow> string" where
  "digits_part = takeWhile is_digit"

definition int_part :: "string \<Rightarrow> string" where
  "int_part s = (case s of c # _ \<Rightarrow> if c = CHR ''0'' then ''0'' else digits_part s | [] \<Rightarrow> [])"

definition frac_part :: "string \<Rightarrow> string" where
  "frac_part s = (case s of c # cs \<Rightarrow> if c = CHR ''.'' then c # digits_part cs else [] | [] \<Rightarrow> [])"

definition exp_part :: "string \<Rightarrow> string option" where
  "exp_part s =
     (case s of
        [] \<Rightarrow> Some []
      | c # cs \<Rightarrow>
          if c = CHR ''e'' \<or> c = CHR ''E'' then
            let esign = takeWhile (\<lambda>d. d = CHR ''+'' \<or> d = CHR ''-'') (take 1 cs);
                ds = digits_part (drop (length esign) cs)
            in if ds = [] then None else Some (c # esign @ ds)
          else Some [])"

definition number_prefix :: "string \<Rightarrow> string option" where
  "number_prefix s =
     (let sign = takeWhile (\<lambda>c. c = CHR ''-'') (take 1 s);
          s1 = drop (length sign) s;
          ip = int_part s1;
          s2 = drop (length ip) s1;
          fp = frac_part s2;
          s3 = drop (length fp) s2
      in if ip = [] \<or> length fp = 1 then None
         else map_option (\<lambda>ep. sign @ ip @ fp @ ep) (exp_part s3))"

text \<open>
  The value of a number literal, \<open>None\<close> when it is out of the range of float64. Digits, fraction
  and exponent are read off the literal, which \<open>number_prefix\<close> has checked.
\<close>

definition number_value :: "string \<Rightarrow> f64 option" where
  "number_value l =
     (let neg = (take 1 l = ''-'');
          b = (if neg then drop 1 l else l);
          ip = digits_part b;
          r = drop (length ip) b;
          fd = (case r of c # cs \<Rightarrow> if c = CHR ''.'' then digits_part cs else [] | [] \<Rightarrow> []);
          r2 = (if fd = [] then r else drop (1 + length fd) r);
          ex = (case r2 of
                  c # d # cs \<Rightarrow>
                    if d = CHR ''-'' then - int (nat_of_digits 0 cs)
                    else if d = CHR ''+'' then int (nat_of_digits 0 cs)
                    else int (nat_of_digits 0 (d # cs))
                | _ \<Rightarrow> 0)
      in case digits_value neg (nat_of_digits 0 (ip @ fd)) (ex - int (length fd)) of
           F64 a m e \<Rightarrow> Some (F64 a m e)
         | _ \<Rightarrow> None)"

text \<open>
  Recursive descent with fuel; the length of the text plus one is enough, since every call is for a
  shorter text. (The decoder's limit of 10000 nested values is not modelled.)
\<close>

fun parse_value :: "nat \<Rightarrow> string \<Rightarrow> (jv \<times> string) option"
  and parse_elems :: "nat \<Rightarrow> string \<Rightarrow> (jv list \<times> string) option"
  and parse_members :: "nat \<Rightarrow> string \<Rightarrow> ((string \<times> jv) list \<times> string) option" where
  "parse_value 0 s = None"
| "parse_value (Suc n) s =
     (case skip_ws s of
        [] \<Rightarrow> None
      | c # cs \<Rightarrow>
          if c = CHR ''{'' then
            (case skip_ws cs of
               [] \<Rightarrow> None
             | d # ds \<Rightarrow> if d = CHR ''}'' then Some (JObj [], ds)
                        else map_option (apfst JObj) (parse_members n (d # ds)))
          else if c = CHR ''['' then
            (case skip_ws cs of
               [] \<Rightarrow> None
             | d # ds \<Rightarrow> if d = CHR '']'' then Some (JArr [], ds)
                        else map_option (apfst JArr) (parse_elems n (d # ds)))
          else if c = CHR 0x22 then map_option (apfst JStr) (parse_string cs)
          else if prefix ''null'' (c # cs) then Some (JNull, drop 4 (c # cs))
          else if prefix ''true'' (c # cs) then Some (JBool True, drop 4 (c # cs))
          else if prefix ''false'' (c # cs) then Some (JBool False, drop 5 (c # cs))
          else map_option (\<lambda>l. (JNum l, drop (length l) (c # cs))) (number_prefix (c # cs)))"
| "parse_elems 0 s = None"
| "parse_elems (Suc n) s =
     (case parse_value n s of
        None \<Rightarrow> None
      | Some (v, r) \<Rightarrow>
          (case skip_ws r of
             [] \<Rightarrow> None
           | c # cs \<Rightarrow>
               if c = CHR '','' then map_option (apfst (Cons v)) (parse_elems n cs)
               else if c = CHR '']'' then Some ([v], cs) else None))"
| "parse_members 0 s = None"
| "parse_members (Suc n) s =
     (case skip_ws s of
        [] \<Rightarrow> None
      | q # qs \<Rightarrow>
          if q \<noteq> CHR 0x22 then None
          else (case parse_string qs of
              None \<Rightarrow> None
            | Some (k, r) \<Rightarrow>
                (case skip_ws r of
                   [] \<Rightarrow> None
                 | d # ds \<Rightarrow>
                     if d \<noteq> CHR '':'' then None
                     else (case parse_value n ds of
                         None \<Rightarrow> None
                       | Some (v, t) \<Rightarrow>
                           (case skip_ws t of
                              [] \<Rightarrow> None
                            | c # cs \<Rightarrow>
                                if c = CHR '','' then map_option (apfst (Cons (k, v))) (parse_members n cs)
                                else if c = CHR ''}'' then Some ([(k, v)], cs) else None)))))"

definition parse_json :: "string \<Rightarrow> jv option" where
  "parse_json s =
     (case parse_value (Suc (length s)) s of
        Some (v, r) \<Rightarrow> if skip_ws r = [] then Some v else None
      | None \<Rightarrow> None)"

text \<open>Decoding a tree into \<open>interface{}\<close>: the last member of a name wins.\<close>

fun to_gval :: "jv \<Rightarrow> gval option"
  and to_gvals :: "jv list \<Rightarrow> gval list option"
  and to_gmembers :: "(string \<times> jv) list \<Rightarrow> (string \<times> gval) list option" where
  "to_gval JNull = Some GNil"
| "to_gval (JBool b) = Some (GBool b)"
| "to_gval (JNum l) = map_option GFloat (number_value l)"
| "to_gval (JStr s) = Some (GStr s)"
| "to_gval (JArr vs) = map_option GArr (to_gvals vs)"
| "to_gval (JObj ms) = map_option (\<lambda>xs. GObj (fmap_of_list (rev xs))) (to_gmembers ms)"
| "to_gvals [] = Some []"
| "to_gvals (v # vs) =
     (case to_gval v of None \<Rightarrow> None | Some x \<Rightarrow> map_option (Cons x) (to_gvals vs))"
| "to_gmembers [] = Some []"
| "to_gmembers ((k, v) # ms) =
     (case to_gval v of None \<Rightarrow> None | Some x \<Rightarrow> map_option (Cons (k, x)) (to_gmembers ms))"

definition json_unmarshal :: "string \<Rightarrow> gval option" where
  "json_unmarshal s = Option.bind (parse_json s) to_gval"

end
