(* ===== verification/Json_Roundtrip.thy ===== *)
theory Json_Roundtrip
  imports Go_Json
begin

text \<open>
  Unmarshalling what was marshalled. Bottom up: string literals, then trees of valid literals, then
  decoded values. \<open>json_norm\<close> is what the round trip makes of a value; it is the reason why the
  operator compares configurations after a round trip and not before.
\<close>

section \<open>String literals\<close>

lemma hex_val_digit: "d < 16 \<Longrightarrow> hex_val (hex_digit d) = Some d"
  by (auto simp: hex_val_def hex_digit_def is_digit_def)

lemma char_eqI: "(of_char c :: nat) = of_char d \<Longrightarrow> c = d"
  by simp

lemma parse_escaped_ascii:
  assumes "(of_char c :: nat) < 128"
  shows "parse_string (escape_ascii c @ t) = map_option (apfst (Cons c)) (parse_string t)"
proof -
  let ?n = "of_char c :: nat"
  have cc: "char_of ?n = c" by simp
  consider (quote) "c = CHR 0x22 \<or> c = CHR 0x5C" | (b) "?n = 8" | (f) "?n = 12" | (n) "?n = 10"
    | (r) "?n = 13" | (t) "?n = 9"
    | (u) "escape_ascii c = [CHR 0x5C, CHR ''u'', CHR ''0'', CHR ''0'', hex_digit (?n div 16), hex_digit (?n mod 16)]"
    | (plain) "escape_ascii c = [c]" "c \<noteq> CHR 0x22" "c \<noteq> CHR 0x5C" "\<not> ?n < 32"
  proof (cases "c = CHR 0x22 \<or> c = CHR 0x5C")
    case False
    then have "escape_ascii c \<in> {[CHR 0x5C, CHR ''u'', CHR ''0'', CHR ''0'', hex_digit (?n div 16), hex_digit (?n mod 16)], [c]}
        \<or> ?n \<in> {8, 12, 10, 13, 9}" "escape_ascii c = [c] \<Longrightarrow> \<not> ?n < 32 \<or> ?n \<in> {8, 12, 10, 13, 9}"
      unfolding escape_ascii_def Let_def by (simp_all split: if_splits)
    with False that show ?thesis by blast
  qed (use that in blast)
  then show ?thesis
  proof cases
    case quote
    then show ?thesis by (auto simp: escape_ascii_def simple_escape_def)
  next
    case b
    then have "c = CHR 0x08" using char_eqI [of c "CHR 0x08"] by simp
    then show ?thesis by (simp add: escape_ascii_def simple_escape_def)
  next
    case f
    then have "c = CHR 0x0C" using char_eqI [of c "CHR 0x0C"] by simp
    then show ?thesis by (simp add: escape_ascii_def simple_escape_def)
  next
    case n
    then have "c = CHR 0x0A" using char_eqI [of c "CHR 0x0A"] by simp
    then show ?thesis by (simp add: escape_ascii_def simple_escape_def)
  next
    case r
    then have "c = CHR 0x0D" using char_eqI [of c "CHR 0x0D"] by simp
    then show ?thesis by (simp add: escape_ascii_def simple_escape_def)
  next
    case t
    then have "c = CHR 0x09" using char_eqI [of c "CHR 0x09"] by simp
    then show ?thesis by (simp add: escape_ascii_def simple_escape_def)
  next
    case u
    have "hex_val (CHR ''0'') = Some 0" by (simp add: hex_val_def is_digit_def)
    moreover have "?n div 16 < 16" "?n mod 16 < 16" "?n div 16 * 16 + ?n mod 16 = ?n"
      using assms by auto
    ultimately have "hex4 ([CHR ''0'', CHR ''0'', hex_digit (?n div 16), hex_digit (?n mod 16)] @ t) = Some ?n"
      by (simp add: hex4_def hex_val_digit)
    with u assms show ?thesis
      by (simp add: escaped_rune_def apfst_def map_prod_def cc)
  next
    case plain
    with assms show ?thesis by simp
  qed
qed

lemma decode_rune_local:
  "decode_rune c cs = (r, k) \<Longrightarrow> r \<noteq> rune_error \<or> k \<noteq> 0 \<Longrightarrow> decode_rune c (take k cs @ t) = (r, k)"
proof -
  assume rk: "decode_rune c cs = (r, k)" and ok: "r \<noteq> rune_error \<or> k \<noteq> 0"
  let ?b = "of_char c :: nat"
  obtain lo hi where lh: "second_range ?b = (lo, hi)" by (metis prod.exhaust)
  consider "?b < 128" | "194 \<le> ?b" "?b < 224" | "224 \<le> ?b" "?b < 240" | "240 \<le> ?b" "?b < 245"
    using rk ok lh by (auto simp: decode_rune_def Let_def split: if_splits)
  then show ?thesis
  proof cases
    case 1
    with rk show ?thesis by auto
  next
    case 2
    then show ?thesis using rk ok lh by (cases cs) (auto simp: decode_rune_def Let_def split: if_splits)
  next
    case 3
    then show ?thesis using rk ok lh
      by (cases cs; cases "tl cs") (auto simp: decode_rune_def Let_def split: if_splits)
  next
    case 4
    then show ?thesis using rk ok lh
      by (cases cs; cases "tl cs"; cases "tl (tl cs)") (auto simp: decode_rune_def Let_def split: if_splits)
  qed
qed

lemma parse_json_escape:
  "parse_string (json_escape s @ CHR 0x22 # t) = Some (string_of_runes (runes s), t)"
proof (induction s rule: json_escape.induct)
  case 1
  then show ?case by simp
next
  case (2 c cs)
  show ?case
  proof (cases "(of_char c :: nat) < 128")
    case True
    with 2(1) show ?thesis by (simp add: parse_escaped_ascii)
  next
    case False
    obtain r k where rk: "decode_rune c cs = (r, k)" by (metis prod.exhaust)
    let ?rest = "json_escape (drop k cs) @ CHR 0x22 # t"
    have IH: "parse_string ?rest = Some (string_of_runes (runes (drop k cs)), t)"
      using 2(2) False rk by simp
    consider "r = rune_error" "k = 0" | "r = 8232 \<or> r = 8233" "\<not> (r = rune_error \<and> k = 0)"
      | "\<not> (r = rune_error \<and> k = 0)" "\<not> (r = 8232 \<or> r = 8233)" by blast
    then show ?thesis
    proof cases
      case 1
      have "hex4 (''fffd'' @ ?rest) = Some rune_error"
        by (simp add: hex4_def hex_val_def is_digit_def rune_error_def)
      with 1 False rk IH show ?thesis
        by (simp add: escaped_rune_def rune_error_def)
    next
      case 2
      have "hex4 (''202'' @ hex_digit (r mod 16) # ?rest) = Some r"
        using 2 by (auto simp: hex4_def hex_val_def hex_digit_def is_digit_def)
      with 2 False rk IH show ?thesis
        by (auto simp: escaped_rune_def rune_error_def)
    next
      case 3
      have "json_escape (c # cs) = c # take k cs @ json_escape (drop k cs)"
        using 3 False rk by (auto simp only: json_escape.simps if_False prod.case append_Cons append_assoc)
      moreover have "decode_rune c (take k cs @ ?rest) = (r, k)"
        using rk 3 by (intro decode_rune_local) auto
      moreover have "c \<noteq> CHR 0x22" "c \<noteq> CHR 0x5C" "\<not> (of_char c :: nat) < 32" using False by auto
      moreover have "drop k (take k cs @ ?rest) = ?rest"
        using decode_rune_width [OF rk] by simp
      ultimately show ?thesis using False rk IH by simp
    qed
  qed
qed

lemma parse_json_string:
  "valid_utf8 s \<Longrightarrow> parse_string (json_escape s @ CHR 0x22 # t) = Some (s, t)"
  by (simp add: parse_json_escape valid_utf8_def)

section \<open>Trees\<close>

text \<open>Trees that can be printed and read back: valid strings, and number literals the scanner reads
  whole before anything that can follow a value.\<close>

definition number_stop :: "string \<Rightarrow> bool" where
  "number_stop t \<longleftrightarrow> (case t of [] \<Rightarrow> True | c # _ \<Rightarrow> c \<in> {CHR '','', CHR '']'', CHR ''}''})"

definition number_literal :: "string \<Rightarrow> bool" where
  "number_literal l \<longleftrightarrow> (\<exists>c cs. l = c # cs \<and> (is_digit c \<or> c = CHR ''-'')) \<and>
     (\<forall>t. number_stop t \<longrightarrow> number_prefix (l @ t) = Some l)"

fun wf_tree :: "jv \<Rightarrow> bool"
  and wf_trees :: "jv list \<Rightarrow> bool"
  and wf_members :: "(string \<times> jv) list \<Rightarrow> bool" where
  "wf_tree JNull \<longleftrightarrow> True"
| "wf_tree (JBool b) \<longleftrightarrow> True"
| "wf_tree (JNum l) \<longleftrightarrow> number_literal l"
| "wf_tree (JStr s) \<longleftrightarrow> valid_utf8 s"
| "wf_tree (JArr vs) \<longleftrightarrow> wf_trees vs"
| "wf_tree (JObj ms) \<longleftrightarrow> wf_members ms"
| "wf_trees [] \<longleftrightarrow> True"
| "wf_trees (v # vs) \<longleftrightarrow> wf_tree v \<and> wf_trees vs"
| "wf_members [] \<longleftrightarrow> True"
| "wf_members ((k, v) # ms) \<longleftrightarrow> valid_utf8 k \<and> wf_tree v \<and> wf_members ms"

lemma skip_ws_other [simp]: "\<not> is_ws c \<Longrightarrow> skip_ws (c # cs) = c # cs"
  by (simp add: skip_ws_def)

lemma not_ws [simp]:
  "\<not> is_ws (CHR ''{'')" "\<not> is_ws (CHR ''['')" "\<not> is_ws (CHR ''}'')" "\<not> is_ws (CHR '']'')"
  "\<not> is_ws (CHR 0x22)" "\<not> is_ws (CHR '','')" "\<not> is_ws (CHR '':'')" "\<not> is_ws (CHR ''n'')"
  "\<not> is_ws (CHR ''t'')" "\<not> is_ws (CHR ''f'')"
  by (simp_all add: is_ws_def)

lemma number_start:
  "is_digit c \<or> c = CHR ''-'' \<Longrightarrow>
   \<not> is_ws c \<and> c \<noteq> CHR ''{'' \<and> c \<noteq> CHR ''['' \<and> c \<noteq> CHR 0x22 \<and> c \<noteq> CHR ''n'' \<and> c \<noteq> CHR ''t'' \<and>
   c \<noteq> CHR ''f'' \<and> c \<noteq> CHR ''}'' \<and> c \<noteq> CHR '']''"
  by (auto simp: is_digit_def is_ws_def)

text \<open>The first byte of a printed value is no white space and closes nothing.\<close>

lemma print_json_start:
  "wf_tree v \<Longrightarrow> \<exists>c cs. print_json v = c # cs \<and> \<not> is_ws c \<and> c \<noteq> CHR '']'' \<and> c \<noteq> CHR ''}''"
proof (cases v)
  case (JNum l)
  moreover assume "wf_tree v"
  ultimately obtain c cs where "l = c # cs" "is_digit c \<or> c = CHR ''-''"
    by (auto simp: number_literal_def)
  with JNum number_start [of c] show ?thesis by simp
qed (simp_all add: json_string_def)

lemma print_elems_Cons:
  "print_elems (v # vs) = print_json v @ (if vs = [] then [] else CHR '','' # print_elems vs)"
  by (cases vs) simp_all

lemma print_members_Cons:
  "print_members ((k, v) # ms) =
     json_string k @ CHR '':'' # print_json v @ (if ms = [] then [] else CHR '','' # print_members ms)"
  by (cases ms) (simp_all)

lemma number_stop_simps [simp]:
  "number_stop []" "number_stop (CHR '','' # t)" "number_stop (CHR '']'' # t)" "number_stop (CHR ''}'' # t)"
  by (simp_all add: number_stop_def)

lemma parse_value_skip: "\<not> is_ws c \<Longrightarrow> parse_members (Suc n) (c # cs) = parse_members (Suc n) (skip_ws (c # cs))"
  by simp

lemma parse_print:
  "wf_tree v \<Longrightarrow> length (print_json v) < n \<Longrightarrow> number_stop t \<Longrightarrow>
     parse_value n (print_json v @ t) = Some (v, t)"
  "wf_trees vs \<Longrightarrow> vs \<noteq> [] \<Longrightarrow> length (print_elems vs) + 1 < n \<Longrightarrow>
     parse_elems n (print_elems vs @ CHR '']'' # t) = Some (vs, t)"
  "wf_members ms \<Longrightarrow> ms \<noteq> [] \<Longrightarrow> length (print_members ms) + 1 < n \<Longrightarrow>
     parse_members n (print_members ms @ CHR ''}'' # t) = Some (ms, t)"
proof (induction v and vs and ms arbitrary: n t and n t and n t
    rule: wf_tree_wf_trees_wf_members.induct)
  case 1
  then show ?case by (cases n) simp_all
next
  case (2 b)
  then show ?case by (cases n) simp_all
next
  case (3 l)
  then obtain c cs where l: "l = c # cs" "is_digit c \<or> c = CHR ''-''" and m: "n \<noteq> 0"
    by (auto simp: number_literal_def)
  note start = number_start [OF l(2)]
  from 3 have "number_prefix (l @ t) = Some l" by (simp add: number_literal_def)
  with l m start show ?case by (cases n) auto
next
  case (4 s)
  then show ?case by (cases n) (simp_all add: json_string_def parse_json_string)
next
  case (5 vs)
  then obtain m where n: "n = Suc m" by (cases n) simp_all
  show ?case
  proof (cases "vs = []")
    case True
    then show ?thesis using n by simp
  next
    case False
    then obtain w ws where vs: "vs = w # ws" by (cases vs) auto
    with 5 have "wf_tree w" by simp
    then obtain c cs where c: "print_elems vs = c # cs" "\<not> is_ws c" "c \<noteq> CHR '']''"
      using print_json_start vs by (fastforce simp: print_elems_Cons)
    have "parse_elems m (print_elems vs @ CHR '']'' # t) = Some (vs, t)"
      using 5 False n by simp
    then show ?thesis using n c by simp
  qed
next
  case (6 ms)
  then obtain m where n: "n = Suc m" by (cases n) simp_all
  show ?case
  proof (cases "ms = []")
    case True
    then show ?thesis using n by simp
  next
    case False
    then obtain k w ws where ms: "ms = (k, w) # ws" by (cases ms) auto
    then obtain cs where c: "print_members ms = CHR 0x22 # cs"
      by (simp add: print_members_Cons json_string_def)
    have "parse_members m (print_members ms @ CHR ''}'' # t) = Some (ms, t)"
      using 6 False n by simp
    then show ?thesis using n c by simp
  qed
next
  case 7
  then show ?case by simp
next
  case (8 v vs)
  then obtain m where n: "n = Suc m" by (cases n) simp_all
  show ?case
  proof (cases "vs = []")
    case True
    with 8 n show ?thesis by (simp add: print_elems_Cons)
  next
    case False
    have len: "length (print_json v) + length (print_elems vs) + 2 < n"
      using 8(5) False by (simp add: print_elems_Cons)
    have "parse_value m (print_json v @ CHR '','' # print_elems vs @ CHR '']'' # t) =
        Some (v, CHR '','' # print_elems vs @ CHR '']'' # t)"
      using 8 len n by simp
    moreover have "parse_elems m (print_elems vs @ CHR '']'' # t) = Some (vs, t)"
      using 8 False len n by simp
    ultimately show ?thesis using False n by (simp add: print_elems_Cons)
  qed
next
  case 9
  then show ?case by simp
next
  case (10 k v ms)
  then obtain m where n: "n = Suc m" by (cases n) simp_all
  let ?r = "(if ms = [] then [] else CHR '','' # print_members ms) @ CHR ''}'' # t"
  have k: "parse_string (json_escape k @ CHR 0x22 # CHR '':'' # print_json v @ ?r) =
      Some (k, CHR '':'' # print_json v @ ?r)"
    using 10(3) by (simp add: parse_json_string)
  have len: "length (print_json v) + (if ms = [] then 0 else length (print_members ms) + 1) + 1 < m"
    using 10(5) n by (simp add: print_members_Cons json_string_def split: if_splits)
  have v: "parse_value m (print_json v @ ?r) = Some (v, ?r)"
    using 10 len by (simp add: number_stop_def)
  show ?case
  proof (cases "ms = []")
    case True
    with k v n show ?thesis by (simp add: print_members_Cons json_string_def)
  next
    case False
    then have "parse_members m (print_members ms @ CHR ''}'' # t) = Some (ms, t)"
      using 10 len by simp
    with False k v n show ?thesis by (simp add: print_members_Cons json_string_def)
  qed
qed

lemma parse_print_json: "wf_tree v \<Longrightarrow> parse_json (print_json v) = Some v"
  using parse_print(1) [of v "Suc (length (print_json v))" "[]"]
  by (simp add: parse_json_def skip_ws_def)

section \<open>Number literals\<close>

lemma show_nat_lead: "0 < n \<Longrightarrow> \<exists>c cs. show_nat n = c # cs \<and> is_digit c \<and> c \<noteq> CHR ''0''"
proof (induction n rule: show_nat.induct)
  case (1 n)
  have zero: "digit_char n \<noteq> CHR ''0''" if "0 < n" "n < 10"
    using that digit_char(2) [of n] by (auto simp: digit_val_def)
  show ?case
  proof (cases "n < 10")
    case True
    with 1 zero show ?thesis by (subst show_nat.simps) simp
  next
    case False
    then have "0 < n div 10" by (simp add: div_greater_zero_iff)
    with 1 False obtain c cs where "show_nat (n div 10) = c # cs" "is_digit c" "c \<noteq> CHR ''0''" by auto
    with False show ?thesis by (subst show_nat.simps) simp
  qed
qed

lemma takeWhile_show_nat:
  "number_stop t \<Longrightarrow> takeWhile is_digit (show_nat n @ t) = show_nat n"
  using show_nat_digits [of n]
  by (cases t) (auto simp: number_stop_def is_digit_def list_all_iff takeWhile_eq_all_conv takeWhile_append)

lemma show_nat_0 [simp]: "show_nat 0 = ''0''"
  by (subst show_nat.simps) (auto simp: digit_char_def intro: char_eqI)

lemma number_prefix_unsigned:
  assumes "number_stop t"
  shows "number_prefix (show_nat n @ t) = Some (show_nat n)"
    and "number_prefix (CHR ''-'' # show_nat n @ t) = Some (CHR ''-'' # show_nat n)"
proof -
  obtain c cs where l: "show_nat n = c # cs" "is_digit c" "c = CHR ''0'' \<Longrightarrow> cs = []"
    using show_nat_lead [of n] show_nat_digits [of n] by (cases "n = 0") auto
  have tw: "takeWhile is_digit (cs @ t) = cs"
    using takeWhile_show_nat [OF assms, of n] l by simp
  have sign: "c \<noteq> CHR ''-''" using l(2) by (auto simp: is_digit_def)
  have t: "t = [] \<or> (\<exists>d ds. t = d # ds \<and> (d = CHR '','' \<or> d = CHR '']'' \<or> d = CHR ''}''))"
    using assms by (cases t) (auto simp: number_stop_def)
  have ip: "int_part (c # cs @ t) = c # cs"
    using l tw by (auto simp: int_part_def digits_part_def)
  have fp: "frac_part t = []" and ep: "exp_part t = Some []"
    using t by (auto simp: frac_part_def exp_part_def)
  have "number_prefix (c # cs @ t) = Some (c # cs) \<and>
      number_prefix (CHR ''-'' # c # cs @ t) = Some (CHR ''-'' # c # cs)"
    using ip fp ep sign by (simp add: number_prefix_def)
  with l show "number_prefix (show_nat n @ t) = Some (show_nat n)"
    "number_prefix (CHR ''-'' # show_nat n @ t) = Some (CHR ''-'' # show_nat n)"
    by simp_all
qed

lemma number_literal_show_int: "number_literal (show_int i)"
proof -
  obtain c cs where "show_nat (nat i) = c # cs" "is_digit c"
    using show_nat_digits [of "nat i"] by (cases "show_nat (nat i)") auto
  with number_prefix_unsigned [of _ "nat i"] show ?thesis
    by (simp add: number_literal_def show_int_def number_prefix_unsigned)
qed

lemma number_value_show_int:
  "number_value (show_int i) = (case f64_of_int i of F64 a m e \<Rightarrow> Some (F64 a m e) | _ \<Rightarrow> None)"
proof -
  have tw: "takeWhile is_digit (show_nat n) = show_nat n" for n
    using takeWhile_show_nat [of "[]" n] by simp
  have "take 1 (show_nat n) \<noteq> ''-''" for n
    using show_nat_digits [of n] by (cases "show_nat n") (auto simp: is_digit_def)
  then show ?thesis
    by (simp add: number_value_def show_int_def digits_part_def tw Let_def digits_value_def f64_of_int_def
        cong: f64.case_cong)
qed

section \<open>Integers as float64\<close>

lemma length_show_nat: "0 < n \<Longrightarrow> 10 ^ (length (show_nat n) - 1) \<le> n \<and> n < 10 ^ length (show_nat n)"
proof (induction n rule: show_nat.induct)
  case (1 n)
  show ?case
  proof (cases "n < 10")
    case True
    with 1 show ?thesis by (simp add: show_nat.simps [of n])
  next
    case False
    let ?l = "length (show_nat (n div 10))"
    have IH: "10 ^ (?l - 1) \<le> n div 10 \<and> n div 10 < 10 ^ ?l"
      using 1 False by (simp add: div_greater_zero_iff)
    have l: "0 < ?l" by simp
    have "10 * 10 ^ (?l - 1) \<le> n" "n < 10 * 10 ^ ?l" using IH by linarith+
    moreover have "10 * 10 ^ (?l - 1) = (10 :: nat) ^ ?l" using l by (simp flip: power_Suc)
    moreover have "show_nat n = show_nat (n div 10) @ [digit_char (n mod 10)]"
      using False by (subst show_nat.simps) simp
    ultimately show ?thesis by simp
  qed
qed

lemma length_show_nat_eq:
  assumes "10 ^ (m - 1) \<le> q" "q < 10 ^ m" "0 < m"
  shows "length (show_nat q) = m"
proof -
  have "0 < q" using assms(1) by (metis gr0I le_zero_eq power_not_zero zero_neq_numeral)
  note l = length_show_nat [OF this]
  have "(10 :: nat) ^ (m - 1) < 10 ^ length (show_nat q)" "(10 :: nat) ^ (length (show_nat q) - 1) < 10 ^ m"
    using l assms by linarith+
  then have "m - 1 < length (show_nat q)" "length (show_nat q) - 1 < m"
    by (simp_all only: power_strict_increasing_iff one_less_numeral_iff rel_simps)
  then show ?thesis using assms(3) by linarith
qed

lemma show_nat_times_power:
  "0 < q \<Longrightarrow> show_nat (q * 10 ^ j) = show_nat q @ replicate j (CHR ''0'')"
proof (induction j)
  case (Suc j)
  have "10 \<le> q * 10 ^ Suc j" using Suc.prems by simp
  then have "show_nat (q * 10 ^ Suc j) = show_nat (q * 10 ^ j) @ [digit_char 0]"
    by (subst show_nat.simps) (simp add: mult.left_commute)
  moreover have "digit_char 0 = CHR ''0''" by (auto simp: digit_char_def intro: char_eqI)
  ultimately show ?case using Suc by (simp add: replicate_append_same)
qed simp

lemma length_zero_split:
  "length (takeWhile (\<lambda>c. c = CHR ''0'') (rev s)) + length (dropWhile (\<lambda>c. c = CHR ''0'') (rev s)) = length s"
  by (simp flip: length_append)

lemma strip_zeros_pad:
  "length (strip_zeros s) \<le> length s \<and> length s \<le> l \<Longrightarrow>
   strip_zeros s @ replicate (l - length (strip_zeros s)) (CHR ''0'') = s @ replicate (l - length s) (CHR ''0'')"
proof -
  assume l: "length (strip_zeros s) \<le> length s \<and> length s \<le> l"
  let ?P = "\<lambda>c. c = CHR ''0''"
  have tw: "rev (takeWhile ?P (rev s)) = replicate (length s - length (strip_zeros s)) (CHR ''0'')"
    using length_zero_split [of s]
    by (intro replicate_eqI) (auto simp: strip_zeros_def dest: set_takeWhileD)
  have "s = strip_zeros s @ rev (takeWhile ?P (rev s))"
    unfolding strip_zeros_def by (metis rev_append rev_rev_ident takeWhile_dropWhile_id)
  with tw have "s @ replicate (l - length s) (CHR ''0'') =
      strip_zeros s @ replicate (length s - length (strip_zeros s)) (CHR ''0'') @ replicate (l - length s) (CHR ''0'')"
    by simp
  also have "\<dots> = strip_zeros s @ replicate (l - length (strip_zeros s)) (CHR ''0'')"
    using l by (simp flip: replicate_add)
  finally show ?thesis by simp
qed

lemma length_strip_zeros: "length (strip_zeros s) \<le> length s"
  using length_zero_split [of s] by (simp add: strip_zeros_def)

text \<open>\<open>shortest\<close> on a whole number \<open>N\<close> of at most 16 digits stops at digits that read back as it.\<close>

lemma round_half_even_bounds: "n div d \<le> round_half_even n d \<and> round_half_even n d \<le> n div d + 1"
  by (simp add: round_half_even_def Let_def)

lemma round_half_even_exact: "0 < d \<Longrightarrow> round_half_even (n * d) d = n"
  by (simp add: round_half_even_def Let_def)

lemma round_digits_whole:
  assumes N: "0 < N" "0 < d" and L: "L = length (show_nat N)" and m: "0 < m" "m \<le> L"
    and r: "round_digits (N * d) d (int L - 1) m = (q, k)"
  shows "length (show_nat q) = m \<and> 0 < q \<and> int L - 1 \<le> k \<and> k \<le> int L \<and> (m = L \<longrightarrow> q = N \<and> k = int L - 1)"
proof -
  let ?r = "if m = L then N else round_half_even (N * d) (d * 10 ^ (L - m))"
  have r': "(q, k) = (if ?r = 10 ^ m then (?r div 10, int L) else (?r, int L - 1))"
  proof (cases "m = L")
    case True
    with r N show ?thesis
      using round_half_even_exact [of d N] by (auto simp: round_digits_def Let_def split: if_splits)
  next
    case False
    have p: "int m - 1 - (int L - 1) < 0" "nat (- (int m - 1 - (int L - 1))) = L - m"
      using False m by simp_all
    with r False show ?thesis by (simp only: round_digits_def Let_def if_False not_less) auto
  qed
  have N10: "10 ^ (L - 1) \<le> N" "N < 10 ^ L" using length_show_nat [OF N(1)] L by simp_all
  have b: "10 ^ (m - 1) \<le> ?r \<and> ?r \<le> 10 ^ m \<and> (m = L \<longrightarrow> ?r < 10 ^ m)"
  proof (cases "m = L")
    case False
    then have mL: "m < L" using m by simp
    have div_eq: "N * d div (d * 10 ^ (L - m)) = N div 10 ^ (L - m)"
      using N(2) by (simp add: mult.commute [of N])
    have "L - 1 = (m - 1) + (L - m)" "L = m + (L - m)" using mL m by simp_all
    then have "10 ^ (m - 1) * 10 ^ (L - m) \<le> N" "N < 10 ^ m * 10 ^ (L - m)"
      using N10 by (metis power_add)+
    then have "10 ^ (m - 1) \<le> N div 10 ^ (L - m)" "N div 10 ^ (L - m) < 10 ^ m"
      by (simp_all add: less_eq_div_iff_mult_less_eq div_less_iff_less_mult)
    with round_half_even_bounds [of "N * d" "d * 10 ^ (L - m)"] div_eq False show ?thesis by auto
  qed (use N10 in simp)
  have q: "10 ^ (m - 1) \<le> q \<and> q < 10 ^ m"
  proof (cases "?r = 10 ^ m")
    case True
    then have "q = 10 ^ m div 10" using r' by auto
    moreover have "(10 :: nat) ^ m = 10 * 10 ^ (m - 1)" using m by (simp flip: power_Suc)
    ultimately show ?thesis by simp
  next
    case False
    then show ?thesis using r' b by auto
  qed
  then have "0 < q" by (metis gr0I le_zero_eq power_not_zero zero_neq_numeral)
  moreover have "length (show_nat q) = m" using q m by (intro length_show_nat_eq) auto
  moreover have "int L - 1 \<le> k \<and> k \<le> int L" using r' by (auto split: if_splits)
  moreover have "m = L \<longrightarrow> q = N \<and> k = int L - 1" using r' b by auto
  ultimately show ?thesis by blast
qed

lemma shortest_whole:
  assumes N: "0 < N" "0 < d" and L: "L = length (show_nat N)" and m: "0 < m" "m \<le> L" "L \<le> m + fuel"
    and f: "f = f64_of_ratio neg N 1"
    and r: "shortest fuel neg (N * d) d (int L - 1) m f = (q, k)"
  shows "\<exists>l. length (show_nat q) = l \<and> 0 < q \<and> l \<le> L \<and> int L - 1 \<le> k \<and> k \<le> int L \<and>
    digits_value neg q (k - int l + 1) = f"
  using m r
proof (induction fuel arbitrary: m)
  case 0
  then have "m = L" by simp
  with 0 round_digits_whole [OF N L, of m q k] show ?case
    by (auto simp: digits_value_def f)
next
  case (Suc fuel)
  obtain q1 k1 where r1: "round_digits (N * d) d (int L - 1) m = (q1, k1)" by (metis prod.exhaust)
  note w = round_digits_whole [OF N L Suc.prems(1,2) r1]
  show ?case
  proof (cases "digits_value neg q1 (k1 - int m + 1) = f")
    case True
    with Suc.prems r1 w show ?thesis by auto
  next
    case False
    then have "m \<noteq> L" using w by (auto simp: digits_value_def f)
    with False Suc.prems r1 show ?thesis by (intro Suc.IH [of "Suc m"]) auto
  qed
qed

lemma bit_len_bounds: "0 < n \<Longrightarrow> 0 < bit_len n \<and> 2 ^ (bit_len n - 1) \<le> n \<and> n < 2 ^ bit_len n"
proof (induction n rule: bit_len.induct)
  case (1 n)
  show ?case
  proof (cases "n = 1")
    case True
    then show ?thesis by (simp add: bit_len.simps)
  next
    case False
    with 1 have IH: "0 < bit_len (n div 2)" "2 ^ (bit_len (n div 2) - 1) \<le> n div 2" "n div 2 < 2 ^ bit_len (n div 2)"
      by (simp_all add: div_greater_zero_iff)
    have "2 * 2 ^ (bit_len (n div 2) - 1) = (2 :: nat) ^ bit_len (n div 2)"
      using IH(1) by (simp flip: power_Suc)
    with IH have "2 ^ bit_len (n div 2) \<le> n" "n < 2 * 2 ^ bit_len (n div 2)" by linarith+
    then show ?thesis using 1 by (simp add: bit_len.simps [of n])
  qed
qed

lemma bit_len_bound: "n < 2 ^ k \<Longrightarrow> bit_len n \<le> k"
proof (cases "n = 0")
  case False
  assume n: "n < 2 ^ k"
  have "(2 :: nat) ^ (bit_len n - 1) < 2 ^ k" using bit_len_bounds [of n] False n by linarith
  then have "bit_len n - 1 < k" by (simp only: power_strict_increasing_iff one_less_numeral_iff rel_simps)
  then show ?thesis by linarith
qed (simp add: bit_len.simps)

lemma f64_of_ratio_whole:
  assumes "0 < N" "N < 2 ^ 53"
  shows "\<exists>z. f64_of_ratio neg N 1 = F64 neg (N * 2 ^ z) (- int z)"
proof
  let ?z = "53 - bit_len N"
  have len: "0 < bit_len N" "bit_len N \<le> 53" "2 ^ (bit_len N - 1) \<le> N" "N < 2 ^ bit_len N"
    using bit_len_bounds [OF assms(1)] bit_len_bound [OF assms(2)] by simp_all
  have one: "bit_len 1 = 1" by (simp add: bit_len.simps)
  have q: "N * 2 ^ ?z < 2 ^ 53"
  proof -
    have "N * 2 ^ ?z < 2 ^ bit_len N * 2 ^ ?z" using len by simp
    also have "\<dots> = 2 ^ 53" using len by (simp flip: power_add)
    finally show ?thesis .
  qed
  have k: "int (bit_len N) - int (bit_len 1) = int (bit_len N - 1)" using one len by simp
  have s: "max (int (bit_len N - 1) - 52) (- 1074) = - int ?z" using len by simp
  have half: "round_half_even x 1 = x" for x using round_half_even_exact [of 1 x] by simp
  have body: "(if - int ?z \<ge> 0 then round_half_even N (1 * 2 ^ nat (- int ?z))
      else round_half_even (N * 2 ^ nat (- (- int ?z))) 1) = N * 2 ^ ?z"
  proof (cases "?z = 0")
    case False
    have "nat (- (- int ?z)) = ?z" by simp
    with False show ?thesis using half by (simp only: ) auto
  qed (use half in simp)
  have cond: "(if int (bit_len N - 1) \<ge> 0 then 1 * 2 ^ nat (int (bit_len N - 1)) \<le> N
      else 1 \<le> N * 2 ^ nat (- int (bit_len N - 1)))" using len by (simp del: of_nat_diff)
  have q_ne: "N * 2 ^ ?z \<noteq> 2 ^ 53" using q by (rule less_imp_neq)
  show "f64_of_ratio neg N 1 = F64 neg (N * 2 ^ ?z) (- int ?z)"
    unfolding f64_of_ratio_def Let_def k if_P [OF cond] s body if_not_P [OF q_ne]
    using assms(1) by simp
qed

lemma show_f64_whole:
  assumes i: "\<bar>i\<bar> < 2 ^ 53"
  shows "\<exists>j. show_f64 (f64_of_int i) = show_int j \<and> f64_of_int j = f64_of_int i"
proof (cases "i = 0")
  case True
  then show ?thesis by (intro exI [of _ 0]) (simp add: f64_of_int_def f64_of_ratio_def show_f64_def show_int_def)
next
  case False
  define N neg where "N = nat \<bar>i\<bar>" and "neg = (i < 0)"
  have N: "0 < N" "N < 2 ^ 53" using False i by (auto simp: N_def nat_less_iff)
  have f: "f64_of_int i = f64_of_ratio neg N 1" by (simp add: f64_of_int_def N_def neg_def)
  obtain z where z: "f64_of_ratio neg N 1 = F64 neg (N * 2 ^ z) (- int z)"
    using f64_of_ratio_whole [OF N] by blast
  let ?L = "length (show_nat N)" and ?d = "2 ^ z :: nat"
  have L: "0 < ?L" "?L \<le> 16"
  proof -
    have "(10 :: nat) ^ (?L - 1) < 10 ^ 16" using length_show_nat [OF N(1)] N(2) by simp
    then have "?L - 1 < 16" by (simp only: power_strict_increasing_iff one_less_numeral_iff rel_simps)
    then show "0 < ?L" "?L \<le> 16" by simp_all
  qed
  have nd: "(if - int z \<ge> 0 then (N * 2 ^ z * 2 ^ nat (- int z), 1) else (N * 2 ^ z, 2 ^ nat (- (- int z)))) = (N * ?d, ?d)"
    by (cases "z = 0") simp_all
  have de: "dec_expo (N * ?d) ?d = int ?L - 1" using N by (simp add: dec_expo_def)
  obtain q k where r: "shortest 16 neg (N * ?d) ?d (int ?L - 1) 1 (f64_of_ratio neg N 1) = (q, k)"
    by (metis prod.exhaust)
  obtain l where l: "length (show_nat q) = l" "0 < q" "l \<le> ?L" "int ?L - 1 \<le> k" "k \<le> int ?L"
      "digits_value neg q (k - int l + 1) = f64_of_ratio neg N 1"
    using shortest_whole [OF N(1) _ refl, of ?d 1 16 "f64_of_ratio neg N 1" neg q k] L r by auto
  define p where "p = nat k + 1 - l"
  have l0: "0 < l" using l(1) by auto
  have p: "k - int l + 1 = int p" "l \<le> nat k + 1" "0 \<le> k" "k < 21" using l L l0 by (auto simp: p_def)
  have lay: "layout_digits (strip_zeros (show_nat q)) k = show_nat (q * 10 ^ p)"
    using p l strip_zeros_pad [of "show_nat q" "nat k + 1"] length_strip_zeros [of "show_nat q"]
    by (simp add: layout_digits_def show_nat_times_power p_def)
  let ?j = "if neg then - int (q * 10 ^ p) else int (q * 10 ^ p)"
  have nonneg: "\<not> int q * 10 ^ p < 0" by (simp add: mult_less_0_iff)
  have "f64_of_int ?j = digits_value neg q (int p)"
    using l(2) nonneg by (auto simp: f64_of_int_def digits_value_def nat_mult_distrib nat_power_eq abs_mult)
  then have "f64_of_int ?j = f64_of_int i" using l(6) p(1) f by simp
  moreover have "show_f64 (f64_of_int i) = show_int ?j"
  proof -
    have "show_f64 (F64 neg (N * 2 ^ z) (- int z)) = (if neg then ''-'' else []) @ layout_digits (strip_zeros (show_nat q)) k"
      using N r z unfolding show_f64_def f64.case Let_def nd prod.case de by simp
    then show ?thesis using f z lay l(2) nonneg by (auto simp: show_int_def nat_mult_distrib nat_power_eq)
  qed
  ultimately show ?thesis by blast
qed

section \<open>Decoded values\<close>

text \<open>What decoding makes of an encoded value: \<open>interface{}\<close> holds every number as a float64.\<close>

primrec json_norm :: "gval \<Rightarrow> gval" where
  "json_norm GNil = GNil"
| "json_norm (GBool b) = GBool b"
| "json_norm (GInt i) = GFloat (f64_of_int i)"
| "json_norm (GFloat f) = GFloat f"
| "json_norm (GStr s) = GStr s"
| "json_norm (GArr vs) = GArr (map json_norm vs)"
| "json_norm (GObj m) = GObj (fmmap json_norm m)"

text \<open>
  Values whose numbers are whole and below 2^53 in size and whose strings are valid UTF-8, as
  manifests have them. A float is one of them when it is a whole number; \<open>whole_float\<close> reads it.
\<close>

definition whole_float :: "f64 \<Rightarrow> int option" where
  "whole_float f =
     (case f of
        F64 neg m e \<Rightarrow>
          let N = int (m div 2 ^ nat (- e)); i = (if neg then - N else N)
          in if N < 2 ^ 53 \<and> f64_of_int i = f then Some i else None
      | _ \<Rightarrow> None)"

primrec json_plain :: "gval \<Rightarrow> bool" where
  "json_plain GNil = True"
| "json_plain (GBool b) = True"
| "json_plain (GInt i) = (\<bar>i\<bar> < 2 ^ 53)"
| "json_plain (GFloat f) = (whole_float f \<noteq> None)"
| "json_plain (GStr s) = valid_utf8 s"
| "json_plain (GArr vs) = list_all id (map json_plain vs)"
| "json_plain (GObj m) = fmpred (\<lambda>k b. valid_utf8 k \<and> b) (fmmap json_plain m)"

lemma f64_of_int_0: "f64_of_int 0 = F64 False 0 0"
  by (simp add: f64_of_int_def f64_of_ratio_def)

lemma f64_of_int_form:
  assumes "\<bar>i\<bar> < 2 ^ 53"
  shows "\<exists>m e. f64_of_int i = F64 (i < 0) m e \<and> m div 2 ^ nat (- e) = nat \<bar>i\<bar>"
proof (cases "i = 0")
  case False
  then have "0 < nat \<bar>i\<bar>" "nat \<bar>i\<bar> < 2 ^ 53" using assms by (auto simp: nat_less_iff)
  from f64_of_ratio_whole [OF this, of "i < 0"] show ?thesis
    unfolding f64_of_int_def by auto
qed (auto simp: f64_of_int_0)

lemma whole_float_of_int: "\<bar>i\<bar> < 2 ^ 53 \<Longrightarrow> whole_float (f64_of_int i) = Some i"
proof -
  assume i: "\<bar>i\<bar> < 2 ^ 53"
  obtain m e where f: "f64_of_int i = F64 (i < 0) m e" "m div 2 ^ nat (- e) = nat \<bar>i\<bar>"
    using f64_of_int_form [OF i] by blast
  have "(if i < 0 then - int (nat \<bar>i\<bar>) else int (nat \<bar>i\<bar>)) = i" by simp
  with f i show ?thesis by (simp add: whole_float_def Let_def nat_less_iff)
qed

lemma whole_float_Some: "whole_float f = Some i \<Longrightarrow> \<bar>i\<bar> < 2 ^ 53 \<and> f = f64_of_int i"
  by (auto simp: whole_float_def Let_def split: f64.splits if_splits)

lemma json_plain_norm: "json_plain v \<Longrightarrow> json_plain (json_norm v)"
proof (induction v)
  case (GObj m)
  then have "json_plain (json_norm v)" if "fmlookup m k = Some v" for k v
    using that by (auto simp: fmran'I)
  then show ?case using GObj by auto
qed (auto simp: whole_float_of_int list_all_iff)

lemma json_norm_idem [simp]: "json_norm (json_norm v) = json_norm v"
proof (induction v)
  case (GObj m)
  then show ?case by (auto simp: fmap.map_comp intro: fmap.map_cong)
qed auto

lemma wf_trees_map: "wf_trees (map f vs) \<longleftrightarrow> (\<forall>v \<in> set vs. wf_tree (f v))"
  by (induction vs) auto

lemma wf_members_iff: "wf_members ms \<longleftrightarrow> (\<forall>(k, v) \<in> set ms. valid_utf8 k \<and> wf_tree v)"
  by (induction ms) auto

lemma to_gvals_map:
  "(\<forall>v \<in> set vs. to_gval (f v) = Some (g v)) \<Longrightarrow> to_gvals (map f vs) = Some (map g vs)"
  by (induction vs) auto

lemma to_gmembers_map:
  "(\<forall>(k, v) \<in> set ms. to_gval v = Some (g k)) \<Longrightarrow> to_gmembers ms = Some (map (\<lambda>(k, v). (k, g k)) ms)"
  by (induction ms) auto

lemma set_sorted_list_of_fmap: "(k, v) \<in> set (sorted_list_of_fmap m) \<longleftrightarrow> fmlookup m k = Some v"
  by (auto simp: sorted_list_of_fmap_def fmlookup_dom_iff)

lemma fmap_eqI: "(\<And>k v. fmlookup a k = Some v \<longleftrightarrow> fmlookup b k = Some v) \<Longrightarrow> a = b"
  by (rule fmap_ext) (metis not_Some_eq)

lemma distinct_sorted_list_of_fmap: "distinct (map fst (sorted_list_of_fmap m))"
  by (simp add: sorted_list_of_fmap_def comp_def sorted_list_of_fset.rep_eq)

lemma lookup_fmap_of_list_rev:
  assumes "distinct (map fst xs)"
  shows "fmlookup (fmap_of_list (rev xs)) k = Some v \<longleftrightarrow> (k, v) \<in> set xs"
proof -
  have "distinct (map fst (rev xs))" using assms by (simp flip: rev_map)
  then show ?thesis by (simp add: fmlookup_of_list map_of_eq_Some_iff)
qed

lemma json_plain_tree:
  "json_plain v \<Longrightarrow> wf_tree (tree_of v) \<and> to_gval (tree_of v) = Some (json_norm v)"
proof (induction v)
  case (GInt i)
  then obtain m e where "f64_of_int i = F64 (i < 0) m e" using f64_of_int_form by fastforce
  then show ?case by (simp add: number_literal_show_int number_value_show_int)
next
  case (GFloat f)
  then obtain i where i: "\<bar>i\<bar> < 2 ^ 53" "f = f64_of_int i" using whole_float_Some by auto
  then obtain j where j: "show_f64 f = show_int j" "f64_of_int j = f" using show_f64_whole by blast
  moreover obtain m e where "f = F64 (i < 0) m e" using i f64_of_int_form by fastforce
  ultimately show ?case by (simp add: number_literal_show_int number_value_show_int)
next
  case (GArr vs)
  then have "\<forall>v \<in> set vs. wf_tree (tree_of v) \<and> to_gval (tree_of v) = Some (json_norm v)"
    by (auto simp: list_all_iff)
  then show ?case by (simp add: wf_trees_map to_gvals_map)
next
  case (GObj m)
  have v: "valid_utf8 k \<and> wf_tree (tree_of v) \<and> to_gval (tree_of v) = Some (json_norm v)"
    if "fmlookup m k = Some v" for k v
    using GObj that by (auto simp: fmran'I)
  let ?ms = "sorted_list_of_fmap (fmmap tree_of m)"
  let ?g = "\<lambda>k. json_norm (the (fmlookup m k))"
  have "wf_members ?ms"
    using v by (auto simp: wf_members_iff set_sorted_list_of_fmap)
  moreover have "to_gmembers ?ms = Some (map (\<lambda>(k, v). (k, ?g k)) ?ms)"
    by (rule to_gmembers_map) (auto simp: set_sorted_list_of_fmap v)
  moreover have "fmap_of_list (rev (map (\<lambda>(k, v). (k, ?g k)) ?ms)) = fmmap json_norm m"
  proof (rule fmap_eqI)
    fix k v
    have "distinct (map fst (map (\<lambda>(k, v). (k, ?g k)) ?ms))"
      using distinct_sorted_list_of_fmap [of "fmmap tree_of m"] by (simp add: comp_def split_def)
    then show "fmlookup (fmap_of_list (rev (map (\<lambda>(k, v). (k, ?g k)) ?ms))) k = Some v \<longleftrightarrow>
        fmlookup (fmmap json_norm m) k = Some v"
      by (simp only: lookup_fmap_of_list_rev) (auto simp: set_sorted_list_of_fmap image_iff Bex_def)
  qed
  ultimately show ?case by simp
qed simp_all

text \<open>The round trip.\<close>

lemma json_plain_supported: "json_plain v \<Longrightarrow> json_supported v"
proof (induction v)
  case (GObj m)
  then have "json_supported v" if "fmlookup m k = Some v" for k v
    using that by (auto simp: fmran'I)
  then show ?case by auto
next
  case (GFloat f)
  then show ?case by (auto simp: whole_float_def split: f64.splits)
qed (auto simp: list_all_iff)

lemma json_unmarshal_marshal:
  assumes "json_plain v"
  shows "\<exists>b. json_marshal v = Some b \<and> json_unmarshal b = Some (json_norm v)"
  using assms json_plain_tree [OF assms] json_plain_supported [OF assms]
  by (simp add: json_marshal_def json_unmarshal_def parse_print_json)

section \<open>Properties\<close>

text \<open>A value whose numbers are whole and below 2^53 in size and whose strings are valid UTF-8
  survives \<open>json.Marshal\<close> and \<open>json.Unmarshal\<close> up to its integers becoming float64, and a second round
  trip changes nothing.\<close>

theorem json_round_trip:
  assumes "json_plain v"
  shows "\<exists>b. json_marshal v = Some b \<and> json_unmarshal b = Some (json_norm v) \<and>
    (\<exists>b'. json_marshal (json_norm v) = Some b' \<and> json_unmarshal b' = Some (json_norm v))"
  using json_unmarshal_marshal [OF assms] json_unmarshal_marshal [OF json_plain_norm [OF assms]]
  by simp

theorem json_round_trip_witness:
  "\<exists>b. json_marshal (GArr [GInt 3, GStr ''a'', GNil]) = Some b \<and>
     json_unmarshal b = Some (GArr [GFloat (f64_of_int 3), GStr ''a'', GNil])"
proof -
  have "json_plain (GArr [GInt 3, GStr ''a'', GNil])" by (simp add: ascii_valid_utf8 ascii_def)
  from json_round_trip [OF this] show ?thesis by auto
qed

end
