(* ===== verification/Go_Calendar.thy ===== *)
theory Go_Calendar
  imports Go_Time
begin

text \<open>
  \<open>Time.Format\<close> with the layout \<open>time.RFC3339Nano\<close>: the proleptic Gregorian calendar, the clock and
  the offset of the local zone. The zone (the offset in seconds east of UTC at an instant) comes from
  the host and is an argument. The reader \<open>parse_rfc3339\<close> is the specification of the format.
\<close>

section \<open>Calendar\<close>

text \<open>Years that start on March 1, so that the leap day is their last day: day 0 is March 1 of year 0,
  719468 days before January 1, 1970. A 400 year cycle has 146097 days.\<close>

definition march_year :: "int \<Rightarrow> int \<times> int" where
  "march_year day =
     (let q = day div 146097; r = day mod 146097;
          c = min (r div 36524) 3; r1 = r - c * 36524;
          f = r1 div 1461; r2 = r1 mod 1461;
          y = min (r2 div 365) 3
      in (q * 400 + c * 100 + f * 4 + y, r2 - y * 365))"

definition march_days :: "int \<Rightarrow> int" where
  "march_days y = 365 * y + y div 4 - y div 100 + y div 400"

definition march_months :: "nat list" where
  "march_months = [31, 30, 31, 30, 31, 31, 30, 31, 30, 31, 31, 29]"

fun split_days :: "nat list \<Rightarrow> nat \<Rightarrow> nat \<times> nat" where
  "split_days [] d = (0, d)"
| "split_days (m # ms) d = (if d < m then (0, d) else apfst Suc (split_days ms (d - m)))"

text \<open>Year, month (1 to 12) and day (from 1) of a number of days since January 1, 1970.\<close>

definition civil_of_days :: "int \<Rightarrow> int \<times> nat \<times> nat" where
  "civil_of_days days =
     (case march_year (days + 719468) of
        (y, doy) \<Rightarrow>
          (case split_days march_months (nat doy) of
             (m, d) \<Rightarrow> if m < 10 then (y, m + 3, d + 1) else (y + 1, m - 9, d + 1)))"

definition days_of_civil :: "int \<Rightarrow> nat \<Rightarrow> nat \<Rightarrow> int" where
  "days_of_civil y m d =
     (let (y', m') = (if m > 2 then (y, m - 3) else (y - 1, m + 9))
      in march_days y' + int (sum_list (take m' march_months) + (d - 1)) - 719468)"

text \<open>The steps of \<open>march_year\<close> with their ranges.\<close>

lemma century_range:
  fixes r :: int
  assumes "0 \<le> r" "r < 146097" "c = min (r div 36524) 3"
  shows "0 \<le> c \<and> c \<le> 3 \<and> 0 \<le> r - c * 36524 \<and> r - c * 36524 \<le> 36524"
proof (cases "r div 36524 \<le> 3")
  case True
  then have c: "c = r div 36524" using assms(3) by simp
  then have "r - c * 36524 = r mod 36524" by (simp add: minus_div_mult_eq_mod)
  moreover have "0 \<le> r mod 36524" "r mod 36524 < 36524" by simp_all
  ultimately show ?thesis using True assms(1) c by (simp add: pos_imp_zdiv_nonneg_iff)
next
  case False
  then have "c = 3" using assms(3) by simp
  with False assms(2) show ?thesis by simp
qed

lemma year_range:
  fixes r :: int
  assumes "0 \<le> r" "r < 1461" "y = min (r div 365) 3"
  shows "0 \<le> y \<and> y \<le> 3 \<and> 0 \<le> r - y * 365 \<and> r - y * 365 < 366"
proof (cases "r div 365 \<le> 3")
  case True
  then have y: "y = r div 365" using assms(3) by simp
  then have "r - y * 365 = r mod 365" by (simp add: minus_div_mult_eq_mod)
  moreover have "0 \<le> r mod 365" "r mod 365 < 365" by simp_all
  ultimately show ?thesis using True assms(1) y by (simp add: pos_imp_zdiv_nonneg_iff)
next
  case False
  then have "y = 3" using assms(3) by simp
  with False assms(2) show ?thesis by simp
qed

lemma div_mult_add_less: "0 \<le> (x :: int) \<Longrightarrow> x < k \<Longrightarrow> (m * k + x) div k = m"
  by simp

lemma year_digits:
  fixes q c f y :: int
  assumes "0 \<le> y" "y \<le> 3" "0 \<le> f" "f \<le> 24" "0 \<le> c" "c \<le> 3"
  shows "(q * 400 + c * 100 + f * 4 + y) div 4 = q * 100 + c * 25 + f"
    and "(q * 400 + c * 100 + f * 4 + y) div 100 = q * 4 + c"
    and "(q * 400 + c * 100 + f * 4 + y) div 400 = q"
proof -
  have e: "q * 400 + c * 100 + f * 4 + y = (q * 100 + c * 25 + f) * 4 + y"
    "q * 400 + c * 100 + f * 4 + y = (q * 4 + c) * 100 + (f * 4 + y)"
    "q * 400 + c * 100 + f * 4 + y = q * 400 + (c * 100 + f * 4 + y)" by simp_all
  show "(q * 400 + c * 100 + f * 4 + y) div 4 = q * 100 + c * 25 + f"
    unfolding e(1) by (rule div_mult_add_less) (use assms in linarith)+
  show "(q * 400 + c * 100 + f * 4 + y) div 100 = q * 4 + c"
    unfolding e(2) by (rule div_mult_add_less) (use assms in linarith)+
  show "(q * 400 + c * 100 + f * 4 + y) div 400 = q"
    unfolding e(3) by (rule div_mult_add_less) (use assms in linarith)+
qed

lemma march_year_bounds:
  assumes "march_year day = (y, doy)"
  shows "march_days y + doy = day" "0 \<le> doy" "doy < 366"
proof -
  define q r where "q = day div 146097" and "r = day mod 146097"
  define c where "c = min (r div 36524) 3"
  define r1 where "r1 = r - c * 36524"
  define f r2 where "f = r1 div 1461" and "r2 = r1 mod 1461"
  define u where "u = min (r2 div 365) 3"
  have "march_year day = (q * 400 + c * 100 + f * 4 + u, r2 - u * 365)"
    by (simp only: march_year_def Let_def q_def r_def c_def r1_def f_def r2_def u_def)
  then have y: "y = q * 400 + c * 100 + f * 4 + u" and d: "doy = r2 - u * 365"
    using assms by simp_all
  have r: "0 \<le> r" "r < 146097" by (simp_all add: r_def)
  have c: "0 \<le> c" "c \<le> 3" "0 \<le> r1" "r1 \<le> 36524"
    using century_range [OF r c_def] by (simp_all add: r1_def)
  have f: "0 \<le> f" "f \<le> 24"
    using c(3) zdiv_mono1 [OF c(4), of 1461] by (simp_all add: f_def pos_imp_zdiv_nonneg_iff)
  have u: "0 \<le> u" "u \<le> 3" "0 \<le> doy" "doy < 366"
    using year_range [OF _ _ u_def] unfolding d r2_def by auto
  show "0 \<le> doy" "doy < 366" using u by simp_all
  have "day = q * 146097 + r" by (simp add: q_def r_def)
  moreover have "r1 = f * 1461 + r2" by (simp add: f_def r2_def)
  ultimately show "march_days y + doy = day"
    unfolding march_days_def y year_digits [OF u(1,2) f c(1,2)] using d r1_def by simp
qed

lemma split_days_bounds:
  "split_days ms d = (m, k) \<Longrightarrow> d < sum_list ms \<Longrightarrow>
   m < length ms \<and> d = sum_list (take m ms) + k \<and> k < ms ! m"
proof (induction ms d arbitrary: m k rule: split_days.induct)
  case (2 x ms d)
  show ?case
  proof (cases "d < x")
    case False
    obtain i j where s: "split_days ms (d - x) = (i, j)" by (rule prod.exhaust)
    with 2 False have m: "m = Suc i" "k = j" by auto
    have "d - x < sum_list ms" using 2(3) False by simp
    from 2(1) [OF False s this] m False show ?thesis by auto
  qed (use 2 in auto)
qed simp

lemma civil_of_days_bounds:
  assumes "civil_of_days days = (y, m, d)"
  shows "days_of_civil y m d = days" "1 \<le> m" "m \<le> 12" "1 \<le> d" "d \<le> 31"
proof -
  obtain y' doy where y: "march_year (days + 719468) = (y', doy)" by (rule prod.exhaust)
  obtain m' k where m: "split_days march_months (nat doy) = (m', k)" by (rule prod.exhaust)
  note b = march_year_bounds [OF y]
  have "nat doy < sum_list march_months" using b(3) by (simp add: march_months_def nat_less_iff)
  from split_days_bounds [OF m this] have s: "m' < 12" "nat doy = sum_list (take m' march_months) + k" "k < march_months ! m'"
    by (simp_all add: march_months_def)
  have "march_months ! m' \<le> 31"
    using s(1) by (auto simp: march_months_def less_Suc_eq numeral_eq_Suc)
  with s(3) have k: "k < 31" by simp
  have c: "(y, m, d) = (if m' < 10 then (y', m' + 3, k + 1) else (y' + 1, m' - 9, k + 1))"
    using assms y m by (simp add: civil_of_days_def)
  then show "1 \<le> m" "m \<le> 12" "1 \<le> d" "d \<le> 31" using s(1) k by (auto split: if_splits)
  show "days_of_civil y m d = days"
    using c b(1,2) s(1,2) by (auto simp: days_of_civil_def split: if_splits)
qed

section \<open>The format\<close>

text \<open>\<open>appendInt\<close>: a sign, and digits padded with zeros to a width.\<close>

definition pad_nat :: "nat \<Rightarrow> nat \<Rightarrow> string" where
  "pad_nat w n = replicate (w - length (show_nat n)) (CHR ''0'') @ show_nat n"

definition pad_int :: "nat \<Rightarrow> int \<Rightarrow> string" where
  "pad_int w i = (if i < 0 then CHR ''-'' # pad_nat w (nat (- i)) else pad_nat w (nat i))"

text \<open>The fraction of a second: nine digits without the trailing zeros, nothing when they are all zero.\<close>

definition strip_zero_digits :: "string \<Rightarrow> string" where
  "strip_zero_digits s = rev (dropWhile (\<lambda>c. c = CHR ''0'') (rev s))"

definition show_fraction :: "nat \<Rightarrow> string" where
  "show_fraction nanos =
     (let ds = strip_zero_digits (pad_nat 9 nanos) in if ds = [] then [] else CHR ''.'' # ds)"

text \<open>Sign and magnitude of the offset in whole minutes, or \<open>Z\<close>.\<close>

definition show_zone :: "int \<Rightarrow> string" where
  "show_zone offset =
     (if offset = 0 then ''Z''
      else let minutes = nat (\<bar>offset\<bar> div 60)
           in (if offset \<le> - 60 then ''-'' else ''+'') @ pad_nat 2 (minutes div 60) @ '':'' @ pad_nat 2 (minutes mod 60))"

definition show_clock :: "int \<Rightarrow> string" where
  "show_clock secs =
     pad_nat 2 (nat (secs div 3600)) @ '':'' @ pad_nat 2 (nat (secs mod 3600 div 60)) @ '':'' @ pad_nat 2 (nat (secs mod 60))"

definition show_date :: "int \<Rightarrow> string" where
  "show_date days =
     (case civil_of_days days of
        (y, m, d) \<Rightarrow> pad_int 4 y @ ''-'' @ pad_nat 2 m @ ''-'' @ pad_nat 2 d)"

definition format_rfc3339_nano :: "(int \<Rightarrow> int) \<Rightarrow> go_time \<Rightarrow> string" where
  "format_rfc3339_nano local_offset t =
     (let unix = wall_ns t div second; nanos = nat (wall_ns t mod second);
          offset = local_offset unix; local = unix + offset
      in show_date (local div 86400) @ ''T'' @ show_clock (local mod 86400) @ show_fraction nanos @
         show_zone offset)"

section \<open>Reading it back\<close>

text \<open>Two digits, a decimal fraction, and the zone; a timestamp is read as nanoseconds since the epoch.\<close>

definition two :: "string \<Rightarrow> nat" where
  "two s = nat_of_digits 0 (take 2 s)"

definition read_fraction :: "string \<Rightarrow> nat \<times> string" where
  "read_fraction s =
     (case s of
        c # cs \<Rightarrow>
          if c = CHR ''.'' then
            let ds = takeWhile is_digit cs in (nat_of_digits 0 ds * 10 ^ (9 - length ds), drop (length ds) cs)
          else (0, s)
      | [] \<Rightarrow> (0, s))"

definition read_zone :: "string \<Rightarrow> int option" where
  "read_zone s =
     (case s of
        c # cs \<Rightarrow>
          if c = CHR ''Z'' then Some 0
          else let v = int (two cs * 3600 + two (drop 3 cs) * 60)
               in if c = CHR ''+'' then Some v else if c = CHR ''-'' then Some (- v) else None
      | [] \<Rightarrow> None)"

definition parse_rfc3339 :: "string \<Rightarrow> int option" where
  "parse_rfc3339 s =
     (let days = days_of_civil (int (nat_of_digits 0 (take 4 s))) (two (drop 5 s)) (two (drop 8 s));
          secs = two (drop 11 s) * 3600 + two (drop 14 s) * 60 + two (drop 17 s);
          (nanos, rest) = read_fraction (drop 19 s)
      in map_option (\<lambda>offset. (days * 86400 + int secs - offset) * second + int nanos) (read_zone rest))"

lemma length_show_nat_le: "n < 10 ^ w \<Longrightarrow> 0 < w \<Longrightarrow> length (show_nat n) \<le> w"
proof (induction w arbitrary: n)
  case (Suc w)
  show ?case
  proof (cases "n < 10")
    case False
    then have "n div 10 < 10 ^ w" "0 < w" using Suc.prems by (cases w; simp add: less_mult_imp_div_less mult.commute)+
    then have "length (show_nat (n div 10)) \<le> w" by (rule Suc.IH)
    with False show ?thesis by (subst show_nat.simps) simp
  qed (subst show_nat.simps, simp)
qed simp

lemma nat_of_digits_zeros [simp]: "nat_of_digits 0 (replicate k (CHR ''0'')) = 0"
  by (induction k) (simp_all add: digit_val_def)

lemma pad_nat:
  assumes "n < 10 ^ w" "0 < w"
  shows "length (pad_nat w n) = w" "nat_of_digits 0 (pad_nat w n) = n" "list_all is_digit (pad_nat w n)"
  using length_show_nat_le [OF assms] show_nat_digits [of n]
  by (auto simp: pad_nat_def list_all_iff is_digit_def)

lemma two_pad [simp]: "n < 100 \<Longrightarrow> two (pad_nat 2 n @ s) = n"
  using pad_nat [of n 2] by (simp add: two_def)

lemma length_pad_2 [simp]: "n < 100 \<Longrightarrow> length (pad_nat 2 n) = 2"
  using pad_nat(1) [of n 2] by simp

lemma strip_zero_digits:
  "\<exists>k. s = strip_zero_digits s @ replicate k (CHR ''0'')"
proof -
  let ?z = "\<lambda>c. c = CHR ''0''"
  have "rev s = takeWhile ?z (rev s) @ dropWhile ?z (rev s)" by simp
  then have "s = strip_zero_digits s @ rev (takeWhile ?z (rev s))"
    unfolding strip_zero_digits_def by (metis rev_append rev_rev_ident)
  moreover have "\<forall>c \<in> set (takeWhile ?z (rev s)). c = CHR ''0''"
    by (auto dest: set_takeWhileD)
  then have "takeWhile ?z (rev s) = replicate (length (takeWhile ?z (rev s))) (CHR ''0'')"
    by (metis replicate_length_same)
  ultimately show ?thesis by (metis rev_replicate)
qed

lemma nat_of_digits_trailing: "nat_of_digits x (replicate k (CHR ''0'')) = x * 10 ^ k"
  by (induction k arbitrary: x) (simp_all add: digit_val_def)

lemma read_show_fraction:
  assumes "n < 10 ^ 9" "rest = c # cs" "\<not> is_digit c" "c \<noteq> CHR ''.''"
  shows "read_fraction (show_fraction n @ rest) = (n, rest)"
proof -
  let ?p = "pad_nat 9 n" and ?s = "strip_zero_digits (pad_nat 9 n)"
  have p: "length ?p = 9" "nat_of_digits 0 ?p = n" "list_all is_digit ?p"
    using pad_nat [OF assms(1)] by simp_all
  obtain k where k: "?p = ?s @ replicate k (CHR ''0'')" using strip_zero_digits by blast
  have len: "length ?s + k = 9" using arg_cong [OF k, of length] p(1) by simp
  have digits: "list_all is_digit ?s" using p(3) arg_cong [OF k, of "list_all is_digit"] by simp
  have val: "nat_of_digits 0 ?s * 10 ^ k = n"
    using p(2) arg_cong [OF k, of "nat_of_digits 0"] by (simp add: nat_of_digits_trailing)
  show ?thesis
  proof (cases "?s = []")
    case True
    with val have "n = 0" by simp
    with True assms show ?thesis by (simp add: show_fraction_def read_fraction_def)
  next
    case False
    have "takeWhile is_digit (?s @ rest) = ?s"
      using digits assms(2,3) by (subst takeWhile_append2) (auto simp: list_all_iff)
    moreover have "9 - length ?s = k" using len by simp
    ultimately show ?thesis
      using False val by (simp add: show_fraction_def read_fraction_def Let_def)
  qed
qed

lemma show_zone_form:
  "\<exists>c cs. show_zone z = c # cs \<and> \<not> is_digit c \<and> c \<noteq> CHR ''.''"
  by (auto simp: show_zone_def Let_def is_digit_def)

lemma minutes_split: "(m :: nat) div 60 * 3600 + m mod 60 * 60 = 60 * m"
proof -
  have "m div 60 * 3600 + m mod 60 * 60 = 60 * (60 * (m div 60) + m mod 60)"
    by (simp only: distrib_left mult.assoc [symmetric])
  then show ?thesis by (simp only: mult_div_mod_eq)
qed

lemma read_show_zone:
  assumes "z mod 60 = 0" "\<bar>z\<bar> < 86400"
  shows "read_zone (show_zone z) = Some z"
proof (cases "z = 0")
  case False
  define m where "m = nat (\<bar>z\<bar> div 60)"
  have m: "m < 1440" using assms(2) by (simp add: m_def nat_less_iff)
  then have b: "m div 60 < 100" "m mod 60 < 100" by (simp_all add: less_mult_imp_div_less)
  have "\<bar>z\<bar> mod 60 = 0" using assms(1) by (auto simp: abs_if zmod_zminus1_eq_if)
  then have z: "\<bar>z\<bar> = 60 * int m"
    using div_mult_mod_eq [of "\<bar>z\<bar>" 60] by (simp add: m_def pos_imp_zdiv_nonneg_iff)
  have v: "int (m div 60 * 3600 + m mod 60 * 60) = \<bar>z\<bar>" unfolding z minutes_split by simp
  have s: "z \<le> - 60 \<longleftrightarrow> z < 0" using assms(1) False by presburger
  have "show_zone z = (if z < 0 then ''-'' else ''+'') @ pad_nat 2 (m div 60) @ '':'' @ pad_nat 2 (m mod 60)"
    using False by (simp only: show_zone_def Let_def s m_def if_False)
  moreover have "read_zone ((if z < 0 then ''-'' else ''+'') @ pad_nat 2 (m div 60) @ '':'' @ pad_nat 2 (m mod 60)) = Some z"
    using v b two_pad [OF b(2), of "[]"] by (cases "z < 0") (simp_all add: read_zone_def Let_def)
  ultimately show ?thesis by simp
qed (simp add: show_zone_def read_zone_def)

lemma drop_pad_2:
  "n < 100 \<Longrightarrow> drop k (pad_nat 2 n @ s) = (if k < 2 then drop k (pad_nat 2 n) @ s else drop (k - 2) s)"
  using length_pad_2 [of n] by auto

lemma read_clock:
  assumes "0 \<le> secs" "secs < 86400"
  shows "int (two (show_clock secs @ s) * 3600 + two (drop 3 (show_clock secs @ s)) * 60 +
      two (drop 6 (show_clock secs @ s))) = secs \<and> drop 8 (show_clock secs @ s) = s"
proof -
  define h m k where "h = nat (secs div 3600)" and "m = nat (secs mod 3600 div 60)" and "k = nat (secs mod 60)"
  have b: "h < 100" "m < 100" "k < 100"
    using assms by (simp_all add: h_def m_def k_def nat_less_iff)
  have i: "int h = secs div 3600" "int m = secs mod 3600 div 60" "int k = secs mod 60"
    using assms by (simp_all add: h_def m_def k_def pos_imp_zdiv_nonneg_iff)
  have "secs mod 60 = secs mod 3600 mod 60" by (simp add: mod_mod_cancel)
  then have v: "int (h * 3600 + m * 60 + k) = secs"
    using div_mult_mod_eq [of secs 3600] div_mult_mod_eq [of "secs mod 3600" 60] by (simp add: i)
  have c: "show_clock secs @ s = pad_nat 2 h @ '':'' @ pad_nat 2 m @ '':'' @ pad_nat 2 k @ s"
    by (simp add: show_clock_def h_def m_def k_def)
  have d: "drop 3 (show_clock secs @ s) = pad_nat 2 m @ '':'' @ pad_nat 2 k @ s"
    "drop 6 (show_clock secs @ s) = pad_nat 2 k @ s" "drop 8 (show_clock secs @ s) = s"
    unfolding c using b by (simp_all add: drop_pad_2)
  show ?thesis
    unfolding d using v by (simp only: c two_pad [OF b(1)] two_pad [OF b(2)] two_pad [OF b(3)])
qed

lemma read_date:
  assumes "civil_of_days days = (y, m, d)" "0 \<le> y" "y \<le> 9999"
  shows "days_of_civil (int (nat_of_digits 0 (take 4 (show_date days @ s)))) (two (drop 5 (show_date days @ s)))
      (two (drop 8 (show_date days @ s))) = days \<and> drop 10 (show_date days @ s) = s"
proof -
  note b = civil_of_days_bounds [OF assms(1)]
  have y: "length (pad_nat 4 (nat y)) = 4" "nat_of_digits 0 (pad_nat 4 (nat y)) = nat y"
    using pad_nat [of "nat y" 4] assms(2,3) by simp_all
  have m: "m < 100" "d < 100" using b by simp_all
  show ?thesis
    using assms b(1) y by (simp add: show_date_def pad_int_def drop_pad_2 [OF m(1)] drop_pad_2 [OF m(2)] m)
qed

text \<open>The round trip: local years 0 to 9999 and offsets of whole minutes below a day.\<close>

definition local_year :: "(int \<Rightarrow> int) \<Rightarrow> go_time \<Rightarrow> int" where
  "local_year local_offset t =
     (let unix = wall_ns t div second in fst (civil_of_days ((unix + local_offset unix) div 86400)))"

definition minute_offset :: "(int \<Rightarrow> int) \<Rightarrow> go_time \<Rightarrow> bool" where
  "minute_offset local_offset t \<longleftrightarrow>
     (let offset = local_offset (wall_ns t div second) in offset mod 60 = 0 \<and> \<bar>offset\<bar> < 86400)"

lemma parse_format_rfc3339:
  assumes "minute_offset local_offset t" "0 \<le> local_year local_offset t" "local_year local_offset t \<le> 9999"
  shows "parse_rfc3339 (format_rfc3339_nano local_offset t) = Some (wall_ns t)"
proof -
  obtain y m d where civil:
    "civil_of_days ((wall_ns t div second + local_offset (wall_ns t div second)) div 86400) = (y, m, d)"
    by (metis prod_cases3)
  have y: "0 \<le> y" "y \<le> 9999" using assms(2,3) civil by (simp_all add: local_year_def Let_def)
  have o: "local_offset (wall_ns t div second) mod 60 = 0" "\<bar>local_offset (wall_ns t div second)\<bar> < 86400"
    using assms(1) by (simp_all add: minute_offset_def Let_def)
  define unix where "unix = wall_ns t div second"
  define nanos where "nanos = nat (wall_ns t mod second)"
  define offset where "offset = local_offset unix"
  define day secs where "day = (unix + offset) div 86400" and "secs = (unix + offset) mod 86400"
  let ?zone = "show_zone offset"
  let ?tail = "show_fraction nanos @ ?zone"
  have f: "format_rfc3339_nano local_offset t = show_date day @ ''T'' @ show_clock secs @ ?tail"
    by (simp add: format_rfc3339_nano_def Let_def unix_def nanos_def offset_def day_def secs_def)
  have n: "nanos < 10 ^ 9" "int nanos = wall_ns t mod second"
    by (simp_all add: nanos_def second_def nat_less_iff)
  note date = read_date [OF civil [folded unix_def, folded offset_def, folded day_def] y, of "''T'' @ show_clock secs @ ?tail"]
  have clock: "int (two (show_clock secs @ ?tail) * 3600 + two (drop 3 (show_clock secs @ ?tail)) * 60 +
      two (drop 6 (show_clock secs @ ?tail))) = secs" "drop 8 (show_clock secs @ ?tail) = ?tail"
    using read_clock [of secs ?tail] by (simp_all add: secs_def)
  let ?s = "show_date day @ ''T'' @ show_clock secs @ ?tail"
  have d: "drop (11 + k) ?s = drop k (show_clock secs @ ?tail)" for k
  proof -
    have "drop (11 + k) ?s = drop (Suc k) (drop 10 ?s)" by (simp only: drop_drop) simp
    also have "drop 10 ?s = ''T'' @ show_clock secs @ ?tail" using date by (rule conjunct2)
    finally show ?thesis by simp
  qed
  obtain c cs where z: "?zone = c # cs" "\<not> is_digit c" "c \<noteq> CHR ''.''" using show_zone_form by blast
  have frac: "read_fraction ?tail = (nanos, ?zone)" by (rule read_show_fraction [OF n(1) z])
  have zone: "read_zone ?zone = Some offset"
    by (rule read_show_zone) (use o in \<open>simp_all add: unix_def offset_def\<close>)
  have "(day * 86400 + secs - offset) * second + int nanos = wall_ns t"
    by (simp add: day_def secs_def n(2) unix_def)
  moreover have "int (two (drop 11 ?s) * 3600 + two (drop 14 ?s) * 60 + two (drop 17 ?s)) = secs"
    using clock(1) d [of 0] d [of 3] d [of 6] by simp
  moreover have "drop 19 ?s = ?tail" using clock(2) d [of 8] by simp
  ultimately show ?thesis
    unfolding f parse_rfc3339_def Let_def using date frac zone by simp
qed

end
