(* ===== verification/Cluster.thy ===== *)
theory Cluster
  imports Gvk Api_Types Json_Roundtrip Go_Calendar
begin

text \<open>
  What the operator's code calls and does not contain: the Kubernetes API through the
  controller-runtime client, the PostgreSQL driver pgx, the template engine with its function
  library, the YAML decoder, the clock. All of it is the record \<open>env\<close> of functions over a world
  \<open>'w\<close>, a parameter of every definition that uses it; \<open>'v\<close> is the type of the values the driver
  returns and \<open>'c\<close> the type of its connections.

  A program with effects runs on a state \<open>rs\<close> with the world, the local variable \<open>dbqr\<close> of
  \<open>Reconcile\<close> (the methods get a pointer to it and change it) and the history of the external calls
  with their outcomes. No program reads the history: it is there for the properties that say which
  calls are made, and \<open>emits\<close> is the judgement about it.
\<close>

section \<open>Objects and errors of the Kubernetes API\<close>

text \<open>
  An \<open>unstructured.Unstructured\<close> as its accessors present it. \<open>members\<close> holds the top level members of
  \<open>Object\<close> other than \<open>apiVersion\<close>, \<open>kind\<close> and \<open>metadata\<close>, and \<open>u_meta\<close> the metadata that has no
  accessor here (owner references and so on).
\<close>

record unstructured =
  u_gvk :: gvk
  u_namespace :: string
  u_name :: string
  u_resourceVersion :: string
  u_labels :: "string smap option"
  u_annotations :: "string smap option"
  u_meta :: "gval smap"
  members :: "gval smap"

text \<open>\<open>obj.Object[name]\<close>: nil when there is no such member.\<close>

definition obj_field :: "unstructured \<Rightarrow> string \<Rightarrow> gval" where
  "obj_field u name = (case fmlookup (members u) name of None \<Rightarrow> GNil | Some v \<Rightarrow> v)"

datatype api_error = NotFound (error_text: string) | Conflict (error_text: string)
  | Other_Error (error_text: string)

definition is_not_found :: "api_error \<Rightarrow> bool" where
  "is_not_found e = (case e of NotFound _ \<Rightarrow> True | _ \<Rightarrow> False)"

definition is_conflict :: "api_error \<Rightarrow> bool" where
  "is_conflict e = (case e of Conflict _ \<Rightarrow> True | _ \<Rightarrow> False)"

lemma api_error_tests [simp]:
  "is_not_found (NotFound m)" "\<not> is_not_found (Conflict m)" "\<not> is_not_found (Other_Error m)"
  "is_conflict (Conflict m)" "\<not> is_conflict (NotFound m)" "\<not> is_conflict (Other_Error m)"
  by (simp_all add: is_not_found_def is_conflict_def)

text \<open>\<open>managedResourceConfig\<close>, the part of an object the operator tracks, and the ways reading or
  writing its JSON fails.\<close>

record managed_config =
  mc_spec :: gval
  mc_data :: gval
  mc_labels :: "string smap option"
  mc_annotations :: "string smap option"

datatype config_error = Unmarshal_Error string | Marshal_Error managed_config

section \<open>The environment\<close>

text \<open>\<open>DatabaseClient\<close> of \<open>internal/util/database_client.go\<close>, once it is connected.\<close>

record ('w, 'v) db_client =
  query_read :: "string \<Rightarrow> 'w \<Rightarrow> (string + 'v smap list \<times> string list) \<times> 'w"
  query_write :: "string \<Rightarrow> 'w \<Rightarrow> (string + 'v smap list \<times> string list) \<times> 'w"
  db_exec :: "string \<Rightarrow> 'w \<Rightarrow> string option \<times> 'w"
  db_close :: "'w \<Rightarrow> string option \<times> 'w"

text \<open>What a template sees: the row of \<open>spec.template\<close>, the child of
  \<open>spec.statusUpdateQueryTemplate\<close>.\<close>

datatype 'v template_data = Row_Data "'v smap" | Resource_Data unstructured

text \<open>What a query delivers: the column names, the rows in order (each its values or the error of
  reading them) and the error the iteration ended with.\<close>

record 'v pg_rows =
  column_names :: "string list"
  row_values :: "(string + 'v list) list"
  rows_err :: "string option"

record ('w, 'v, 'c) env =
  get_cr :: "string \<Rightarrow> string \<Rightarrow> 'w \<Rightarrow> (api_error + dbqr) \<times> 'w"
  update_cr :: "dbqr \<Rightarrow> 'w \<Rightarrow> api_error option \<times> 'w"
  update_status :: "dbqr \<Rightarrow> 'w \<Rightarrow> (api_error + dbqr) \<times> 'w"
  get_secret :: "string \<Rightarrow> string \<Rightarrow> 'w \<Rightarrow> (api_error + string smap) \<times> 'w"
  get_object :: "gvk \<Rightarrow> string \<Rightarrow> string \<Rightarrow> 'w \<Rightarrow> (api_error + unstructured) \<times> 'w"
  update_object :: "unstructured \<Rightarrow> 'w \<Rightarrow> api_error option \<times> 'w"
  apply_object :: "unstructured \<Rightarrow> 'w \<Rightarrow> (api_error + unstructured) \<times> 'w"
  delete_object :: "unstructured \<Rightarrow> 'w \<Rightarrow> api_error option \<times> 'w"
  scope_name :: "gvk \<Rightarrow> 'w \<Rightarrow> (string + string) \<times> 'w"
  set_controller_reference :: "dbqr \<Rightarrow> unstructured \<Rightarrow> string + unstructured"
  remove_finalizer :: "dbqr \<Rightarrow> string \<Rightarrow> dbqr"
  set_status_condition :: "condition list option \<Rightarrow> condition \<Rightarrow> condition list option"
  clock :: "'w \<Rightarrow> go_time \<times> 'w"
  local_offset :: "int \<Rightarrow> int"
  client_factory :: "(string \<Rightarrow> string smap \<Rightarrow> 'w \<Rightarrow> (string + ('w, 'v) db_client) \<times> 'w) option"
  pgx_connect :: "string \<Rightarrow> 'w \<Rightarrow> (string + 'c) \<times> 'w"
  pgx_query :: "'c \<Rightarrow> string \<Rightarrow> 'w \<Rightarrow> (string + 'v pg_rows) \<times> 'w"
  pgx_batch :: "'c \<Rightarrow> string list \<Rightarrow> 'w \<Rightarrow> string option \<times> 'w"
  pgx_exec :: "'c \<Rightarrow> string \<Rightarrow> 'w \<Rightarrow> string option \<times> 'w"
  pgx_close :: "'c \<Rightarrow> 'w \<Rightarrow> string option \<times> 'w"
  template_parse :: "string \<Rightarrow> string \<Rightarrow> string option"
  template_execute :: "string \<Rightarrow> string \<Rightarrow> 'v template_data \<Rightarrow> 'w \<Rightarrow> (string + string) \<times> 'w"
  yaml_decode :: "string \<Rightarrow> string + unstructured"
  show_value :: "'v \<Rightarrow> string"
  config_error_text :: "config_error \<Rightarrow> string"
  is_print :: "nat \<Rightarrow> bool"
  bracket_host :: "string \<Rightarrow> string + string"

section \<open>State, history and calls\<close>

datatype event =
    Got_CR bool
  | Updated_CR dbqr "api_error option"
  | Updated_Status dbqr "api_error option"
  | Got_Secret string string
  | Got gvk string string "api_error option"
  | Updated unstructured "api_error option"
  | Applied unstructured "api_error option"
  | Deleted unstructured "api_error option"
  | Mapped gvk
  | Clock_Read go_time
  | Connected string bool
  | Read_Query string bool
  | Executed string bool
  | Closed
  | Rendered string

record 'w rs =
  world :: 'w
  cr :: dbqr
  history :: "event list"

type_synonym ('w, 'a) prog = "('w rs, 'a) state"

definition failure :: "'e + 'a \<Rightarrow> 'e option" where
  "failure r = (case r of Inl e \<Rightarrow> Some e | Inr _ \<Rightarrow> None)"

lemma failure_simps [simp]: "failure (Inl e) = Some e" "failure (Inr x) = None"
  by (simp_all add: failure_def)

text \<open>A call of the environment, recorded as the event of its outcome.\<close>

definition call :: "('w \<Rightarrow> 'a \<times> 'w) \<Rightarrow> ('a \<Rightarrow> event) \<Rightarrow> ('w, 'a) prog" where
  "call f ev = State (\<lambda>s. case f (world s) of
     (a, w) \<Rightarrow> (a, s\<lparr>world := w, history := history s @ [ev a]\<rparr>))"

definition read_cr :: "('w, dbqr) prog" where
  "read_cr = State (\<lambda>s. (cr s, s))"

definition write_cr :: "(dbqr \<Rightarrow> dbqr) \<Rightarrow> ('w, unit) prog" where
  "write_cr f = State (\<lambda>s. ((), s\<lparr>cr := f (cr s)\<rparr>))"

lemma call_simps [simp]:
  "run_result (call f ev) s = fst (f (world s))"
  "run_after (call f ev) s =
     s\<lparr>world := snd (f (world s)), history := history s @ [ev (fst (f (world s)))]\<rparr>"
  by (simp_all add: call_def split: prod.splits)

lemma read_cr_simps [simp]: "run_result read_cr s = cr s" "run_after read_cr s = s"
  by (simp_all add: read_cr_def)

lemma write_cr_simps [simp]: "run_result (write_cr f) s = ()" "run_after (write_cr f) s = s\<lparr>cr := f (cr s)\<rparr>"
  by (simp_all add: write_cr_def)

text \<open>\<open>r.Get\<close> of an object, \<open>r.Update\<close>, \<open>r.Patch\<close> with server-side apply, \<open>r.Delete\<close>. A successful
  patch replaces the object by the server's answer.\<close>

definition do_get :: "('w, 'v, 'c) env \<Rightarrow> gvk \<Rightarrow> string \<Rightarrow> string \<Rightarrow> ('w, api_error + unstructured) prog" where
  "do_get K g ns n = call (get_object K g ns n) (\<lambda>r. Got g ns n (failure r))"

definition do_update :: "('w, 'v, 'c) env \<Rightarrow> unstructured \<Rightarrow> ('w, api_error option) prog" where
  "do_update K u = call (update_object K u) (Updated u)"

definition do_apply :: "('w, 'v, 'c) env \<Rightarrow> unstructured \<Rightarrow> ('w, api_error + unstructured) prog" where
  "do_apply K u = call (apply_object K u) (\<lambda>r. Applied u (failure r))"

definition do_delete :: "('w, 'v, 'c) env \<Rightarrow> unstructured \<Rightarrow> ('w, api_error option) prog" where
  "do_delete K u = call (delete_object K u) (Deleted u)"

definition now :: "('w, 'v, 'c) env \<Rightarrow> ('w, go_time) prog" where
  "now K = call (clock K) Clock_Read"

text \<open>\<open>r.Status().Update(ctx, dbqr)\<close>: on success \<open>dbqr\<close> becomes the server's answer.\<close>

definition do_update_status :: "('w, 'v, 'c) env \<Rightarrow> ('w, api_error option) prog" where
  "do_update_status K = do {
     d \<leftarrow> read_cr;
     r \<leftarrow> call (update_status K d) (\<lambda>r. Updated_Status d (failure r));
     case r of
       Inl e \<Rightarrow> State_Monad.return (Some e)
     | Inr d' \<Rightarrow> do { _ \<leftarrow> write_cr (\<lambda>_. d'); State_Monad.return None }
   }"

section \<open>Which events a program adds\<close>

definition emits :: "(event \<Rightarrow> bool) \<Rightarrow> ('w, 'a) prog \<Rightarrow> bool" where
  "emits A m \<longleftrightarrow> (\<forall>s. \<exists>es. history (run_after m s) = history s @ es \<and> list_all A es)"

named_theorems emits_intros \<open>syntax directed rules of the events a program adds\<close>

lemma emits_return [emits_intros]: "emits A (State_Monad.return x)"
  by (simp add: emits_def)

lemma emits_bind [emits_intros]:
  assumes "emits A m" "\<And>a. emits A (f a)"
  shows "emits A (State_Monad.bind m f)"
  unfolding emits_def
proof
  fix s
  obtain es where "history (run_after m s) = history s @ es" "list_all A es"
    using assms(1) unfolding emits_def by blast
  moreover obtain fs where
    "history (run_after (f (run_result m s)) (run_after m s)) = history (run_after m s) @ fs" "list_all A fs"
    using assms(2) unfolding emits_def by blast
  ultimately show "\<exists>es. history (run_after (State_Monad.bind m f) s) = history s @ es \<and> list_all A es"
    by (auto intro!: exI [of _ "es @ fs"])
qed

lemma emits_if [emits_intros]:
  "(b \<Longrightarrow> emits A m) \<Longrightarrow> (\<not> b \<Longrightarrow> emits A n) \<Longrightarrow> emits A (if b then m else n)"
  by simp

lemma emits_option [emits_intros]:
  "(x = None \<Longrightarrow> emits A m) \<Longrightarrow> (\<And>y. x = Some y \<Longrightarrow> emits A (f y)) \<Longrightarrow>
   emits A (case x of None \<Rightarrow> m | Some y \<Rightarrow> f y)"
  by (cases x) simp_all

lemma emits_sum [emits_intros]:
  "(\<And>e. x = Inl e \<Longrightarrow> emits A (f e)) \<Longrightarrow> (\<And>y. x = Inr y \<Longrightarrow> emits A (g y)) \<Longrightarrow>
   emits A (case x of Inl e \<Rightarrow> f e | Inr y \<Rightarrow> g y)"
  by (cases x) simp_all

lemma emits_prod [emits_intros]:
  "(\<And>a b. x = (a, b) \<Longrightarrow> emits A (f a b)) \<Longrightarrow> emits A (case x of (a, b) \<Rightarrow> f a b)"
  by (cases x) simp

lemma emits_let [emits_intros]: "emits A (f x) \<Longrightarrow> emits A (let y = x in f y)"
  by simp

lemma emits_call: "(\<And>w. A (ev (fst (f w)))) \<Longrightarrow> emits A (call f ev)"
  by (simp add: emits_def)

lemma emits_read_cr [emits_intros]: "emits A read_cr"
  by (simp add: emits_def)

lemma emits_write_cr [emits_intros]: "emits A (write_cr f)"
  by (simp add: emits_def)

lemma emits_mono: "emits A m \<Longrightarrow> (\<And>e. A e \<Longrightarrow> B e) \<Longrightarrow> emits B m"
  unfolding emits_def by (metis list.pred_mono_strong)

lemma emitsD:
  "emits A m \<Longrightarrow> \<exists>es. history (run_after m s) = history s @ es \<and> list_all A es"
  by (simp add: emits_def)

lemma emits_do_get [emits_intros]: "(\<And>r. A (Got g ns n r)) \<Longrightarrow> emits A (do_get K g ns n)"
  by (simp add: do_get_def emits_call)

lemma emits_do_update [emits_intros]: "(\<And>r. A (Updated u r)) \<Longrightarrow> emits A (do_update K u)"
  by (simp add: do_update_def emits_call)

lemma emits_do_apply [emits_intros]: "(\<And>r. A (Applied u r)) \<Longrightarrow> emits A (do_apply K u)"
  by (simp add: do_apply_def emits_call)

lemma emits_do_delete [emits_intros]: "(\<And>r. A (Deleted u r)) \<Longrightarrow> emits A (do_delete K u)"
  by (simp add: do_delete_def emits_call)

lemma emits_now [emits_intros]: "(\<And>t. A (Clock_Read t)) \<Longrightarrow> emits A (now K)"
  by (simp add: now_def emits_call)

lemma emits_do_update_status [emits_intros]:
  "(\<And>d r. A (Updated_Status d r)) \<Longrightarrow> emits A (do_update_status K)"
  unfolding do_update_status_def by (intro emits_intros emits_call) simp_all

end
