(* ===== verification/Simulation.thy ===== *)
theory Simulation
  imports Cluster
begin

text \<open>
  A small executable environment: an API server that keeps its objects in a list, a database whose
  tables are a list of rows, a template engine that prints one column. The properties that assume
  something about the environment are applied to it.
\<close>

record sim =
  sim_cr :: "dbqr option"
  sim_objects :: "unstructured list"
  sim_secret :: "string smap"
  sim_rows :: "string smap list"
  sim_time :: int
  sim_executed :: "string list"

definition same_object :: "unstructured \<Rightarrow> unstructured \<Rightarrow> bool" where
  "same_object a b \<longleftrightarrow> u_gvk a = u_gvk b \<and> u_namespace a = u_namespace b \<and> u_name a = u_name b"

definition sim_lookup :: "sim \<Rightarrow> gvk \<Rightarrow> string \<Rightarrow> string \<Rightarrow> unstructured option" where
  "sim_lookup w g ns n = List.find (\<lambda>u. u_gvk u = g \<and> u_namespace u = ns \<and> u_name u = n) (sim_objects w)"

definition sim_store :: "unstructured \<Rightarrow> sim \<Rightarrow> sim" where
  "sim_store u w = w\<lparr>sim_objects := u # filter (\<lambda>x. \<not> same_object u x) (sim_objects w)\<rparr>"

definition sim_client :: "(sim, string) db_client" where
  "sim_client =
     \<lparr>query_read = (\<lambda>q w. (Inr (sim_rows w, [''name'']), w)),
      query_write = (\<lambda>q w. (Inr (sim_rows w, [''name'']), w)),
      db_exec = (\<lambda>q w. (None, w\<lparr>sim_executed := sim_executed w @ [q]\<rparr>)),
      db_close = (\<lambda>w. (None, w))\<rparr>"

text \<open>The manifest a rendered name stands for.\<close>

definition sim_manifest :: "string \<Rightarrow> unstructured" where
  "sim_manifest name =
     \<lparr>u_gvk = GVK [] ''v1'' ''ConfigMap'', u_namespace = [], u_name = name, u_resourceVersion = [],
      u_labels = None, u_annotations = None, u_meta = fmempty,
      members = fmupd ''data'' (GObj (fmupd ''k'' (GStr name) fmempty)) fmempty\<rparr>"

text \<open>A row without a name does not render.\<close>

definition sim_render :: "string template_data \<Rightarrow> string + string" where
  "sim_render t =
     (case t of
        Row_Data row \<Rightarrow> (case fmlookup row ''name'' of None \<Rightarrow> Inl ''no name'' | Some n \<Rightarrow> Inr n)
      | Resource_Data u \<Rightarrow> Inr (''UPDATE t SET v = '' @ u_resourceVersion u))"

definition sim_env :: "(sim, string, nat) env" where
  "sim_env =
     \<lparr>get_cr = (\<lambda>ns n w. (case sim_cr w of None \<Rightarrow> Inl (NotFound ''gone'') | Some d \<Rightarrow> Inr d, w)),
      update_cr = (\<lambda>d w. (None, w\<lparr>sim_cr := Some d\<rparr>)),
      update_status = (\<lambda>d w. (Inr d, w\<lparr>sim_cr := Some d\<rparr>)),
      get_secret = (\<lambda>ns n w. (Inr (sim_secret w), w)),
      get_object = (\<lambda>g ns n w. (case sim_lookup w g ns n of
         None \<Rightarrow> Inl (NotFound n) | Some u \<Rightarrow> Inr u, w)),
      update_object = (\<lambda>u w. (None, sim_store u w)),
      apply_object = (\<lambda>u w. (Inr u, sim_store u w)),
      delete_object = (\<lambda>u w. (None, w\<lparr>sim_objects := filter (\<lambda>x. \<not> same_object u x) (sim_objects w)\<rparr>)),
      scope_name = (\<lambda>g w. (Inr ''namespace'', w)),
      set_controller_reference = (\<lambda>d u. Inr u),
      remove_finalizer = (\<lambda>d f. d\<lparr>d_finalizers := filter (\<lambda>x. x \<noteq> f) (d_finalizers d)\<rparr>),
      set_status_condition = (\<lambda>cs c. Some (filter (\<lambda>x. c_type x \<noteq> c_type c)
         (case cs of None \<Rightarrow> [] | Some xs \<Rightarrow> xs) @ [c])),
      clock = (\<lambda>w. (GoTime (sim_time w) None, w\<lparr>sim_time := sim_time w + 1\<rparr>)),
      local_offset = (\<lambda>unix. 3600),
      client_factory = Some (\<lambda>ty config w. (Inr sim_client, w)),
      pgx_connect = (\<lambda>s w. (Inr (length s), w)),
      pgx_query = (\<lambda>c q w. (Inr \<lparr>column_names = [''name''], row_values = [Inr [''a'']], rows_err = None\<rparr>, w)),
      pgx_batch = (\<lambda>c qs w. (None, w)),
      pgx_exec = (\<lambda>c q w. (None, w)),
      pgx_close = (\<lambda>c w. (None, w)),
      template_parse = (\<lambda>name t. None),
      template_execute = (\<lambda>name t data w. (sim_render data, w)),
      yaml_decode = (\<lambda>s. Inr (sim_manifest s)),
      show_value = (\<lambda>v. v),
      config_error_text = (\<lambda>e. ''config error''),
      is_print = (\<lambda>r. True),
      bracket_host = (\<lambda>s. Inr s)\<rparr>"

text \<open>A resource that polls every minute, and the world with its child.\<close>

definition sim_spec :: dbqr_spec where
  "sim_spec =
     \<lparr>pollInterval = ''1m'',
      database = \<lparr>db_type = ''postgres'', connectionSecretRef =
        \<lparr>sr_name = ''db'', sr_namespace = [], uriKey = ''uri'', hostKey = [], readonlyHostKey = [],
         portKey = [], userKey = [], passwordKey = [], dbNameKey = [], sslModeKey = []\<rparr>\<rparr>,
      query = ''SELECT name FROM t'', resource_template = ''t'', prune_opt = None,
      statusUpdateQueryTemplate = [], changeDetection = None\<rparr>"

definition sim_status :: dbqr_status where
  "sim_status =
     \<lparr>conditions = None, lastPollTime = None, managedResources = Some [''/v1/ConfigMap/default/old''],
      observedGeneration = 1, lastChangeCheckTime = None, lastReconcileTime = None, resourceVersions = None\<rparr>"

definition sim_resource :: dbqr where
  "sim_resource =
     \<lparr>d_name = ''r'', d_namespace = ''default'', d_uid = ''1'', d_resourceVersion = ''1'', d_generation = 1,
      d_finalizers = [''konnektr.io/databasequeryresource-finalizer''], d_deletionTimestamp = None,
      spec = sim_spec, status = sim_status\<rparr>"

definition sim_child :: unstructured where
  "sim_child = (sim_manifest ''old'')\<lparr>u_namespace := ''default'', u_resourceVersion := ''5''\<rparr>"

definition sim_world :: sim where
  "sim_world =
     \<lparr>sim_cr = Some sim_resource, sim_objects = [sim_child],
      sim_secret = fmupd ''uri'' ''postgres://u:p@h/db'' fmempty,
      sim_rows = [fmupd ''name'' ''a'' fmempty], sim_time = 1000, sim_executed = []\<rparr>"

definition sim_state :: "sim rs" where
  "sim_state = \<lparr>world = sim_world, cr = sim_resource, history = []\<rparr>"

lemmas sim_defs = sim_env_def sim_world_def sim_state_def sim_resource_def sim_spec_def sim_status_def
  sim_child_def sim_manifest_def sim_lookup_def sim_store_def sim_client_def sim_render_def same_object_def

end
