(* ===== verification/Go_Url.thy ===== *)
theory Go_Url
  imports Go_Json
begin

text \<open>
  \<open>net/url\<close> as \<open>parsePostgreSQLURI\<close> uses it: \<open>Parse\<close> with its error texts, \<open>Hostname\<close>, \<open>Port\<close>, the
  user information and \<open>Query().Get\<close>. Two functions are parameters: \<open>printable\<close>, the table of printable
  runes beyond ASCII that \<open>%q\<close> consults, and \<open>brackets\<close>, the reading of a host with brackets (an IPv6
  literal), which differs between the releases of Go.
\<close>

section \<open>Quoting\<close>

definition hex_digits :: "nat \<Rightarrow> nat \<Rightarrow> string" where
  "hex_digits w n = map (\<lambda>i. hex_digit (n div 16 ^ i mod 16)) (rev [0..<w])"

definition escape_rune :: "(nat \<Rightarrow> bool) \<Rightarrow> nat \<Rightarrow> string" where
  "escape_rune printable r =
     (if r = 34 \<or> r = 92 then [CHR 0x5C, char_of r]
      else if (32 \<le> r \<and> r < 127) \<or> (128 \<le> r \<and> printable r) then encode_rune r
      else if r = 7 then [CHR 0x5C, CHR ''a''] else if r = 8 then [CHR 0x5C, CHR ''b'']
      else if r = 12 then [CHR 0x5C, CHR ''f''] else if r = 10 then [CHR 0x5C, CHR ''n'']
      else if r = 13 then [CHR 0x5C, CHR ''r''] else if r = 9 then [CHR 0x5C, CHR ''t'']
      else if r = 11 then [CHR 0x5C, CHR ''v'']
      else if r < 32 \<or> r = 127 then CHR 0x5C # CHR ''x'' # hex_digits 2 r
      else if r < 65536 then CHR 0x5C # CHR ''u'' # hex_digits 4 r
      else CHR 0x5C # CHR ''U'' # hex_digits 8 r)"

text \<open>\<open>strconv.Quote\<close>; a byte that is no part of a rune is written in hexadecimal.\<close>

fun quote_body :: "(nat \<Rightarrow> bool) \<Rightarrow> string \<Rightarrow> string" where
  "quote_body printable [] = []"
| "quote_body printable (c # cs) =
     (case decode_rune c cs of (r, k) \<Rightarrow>
        (if r = rune_error \<and> k = 0 then CHR 0x5C # CHR ''x'' # hex_digits 2 (of_char c)
         else escape_rune printable r) @ quote_body printable (drop k cs))"

definition go_quote :: "(nat \<Rightarrow> bool) \<Rightarrow> string \<Rightarrow> string" where
  "go_quote printable s = CHR 0x22 # quote_body printable s @ [CHR 0x22]"

section \<open>Unescaping\<close>

datatype url_mode = In_Path | In_User | In_Host | In_Query | In_Fragment

definition is_alpha :: "char \<Rightarrow> bool" where
  "is_alpha c \<longleftrightarrow> (CHR ''a'' \<le> c \<and> c \<le> CHR ''z'') \<or> (CHR ''A'' \<le> c \<and> c \<le> CHR ''Z'')"

definition host_char :: "char \<Rightarrow> bool" where
  "host_char c \<longleftrightarrow> is_alpha c \<or> is_digit c \<or> c \<in> set ''!$&'' \<or> c = CHR 0x27 \<or>
     c \<in> set ''()*+,;=:[]<>-_.~'' \<or> c = CHR 0x22 \<or> 128 \<le> (of_char c :: nat)"

definition escape_error :: "(nat \<Rightarrow> bool) \<Rightarrow> string \<Rightarrow> string" where
  "escape_error printable s = ''invalid URL escape '' @ go_quote printable s"

fun url_unescape :: "(nat \<Rightarrow> bool) \<Rightarrow> url_mode \<Rightarrow> string \<Rightarrow> string + string" where
  "url_unescape printable mode [] = Inr []"
| "url_unescape printable mode (c # cs) =
     (if c = CHR ''%'' then
        (case cs of
           a # b # ds \<Rightarrow>
             (case (hex_val a, hex_val b) of
                (Some x, Some y) \<Rightarrow>
                  if mode = In_Host \<and> x < 8 \<and> \<not> (a = CHR ''2'' \<and> b = CHR ''5'') then
                    Inl (escape_error printable [c, a, b])
                  else (case url_unescape printable mode ds of
                          Inl e \<Rightarrow> Inl e | Inr r \<Rightarrow> Inr (char_of (x * 16 + y) # r))
              | _ \<Rightarrow> Inl (escape_error printable (take 3 (c # cs))))
         | _ \<Rightarrow> Inl (escape_error printable (take 3 (c # cs))))
      else if mode = In_Host \<and> \<not> host_char c then
        Inl (''invalid character '' @ go_quote printable [c] @ '' in host name'')
      else (case url_unescape printable mode cs of
              Inl e \<Rightarrow> Inl e
            | Inr r \<Rightarrow> Inr ((if c = CHR ''+'' \<and> mode = In_Query then CHR '' '' else c) # r)))"

section \<open>Parse\<close>

record url =
  u_scheme :: string
  u_user :: "(string \<times> string option) option"
  u_host :: string
  u_path :: string
  u_rawQuery :: string

definition empty_url :: url where
  "empty_url = \<lparr>u_scheme = [], u_user = None, u_host = [], u_path = [], u_rawQuery = []\<rparr>"

text \<open>\<open>strings.Cut\<close> at the first occurrence of a byte.\<close>

definition cut :: "char \<Rightarrow> string \<Rightarrow> string \<times> string" where
  "cut c s = (let a = takeWhile (\<lambda>x. x \<noteq> c) s in (a, drop (Suc (length a)) s))"

text \<open>\<open>getScheme\<close>: the scheme, empty when there is none, and the rest.\<close>

definition get_scheme :: "string \<Rightarrow> string + string \<times> string" where
  "get_scheme s =
     (let a = takeWhile (\<lambda>c. is_alpha c \<or> is_digit c \<or> c \<in> set ''+-.'') s
      in if drop (length a) s = [] \<or> hd (drop (length a) s) \<noteq> CHR '':'' then Inr ([], s)
         else if a = [] then Inl ''missing protocol scheme''
         else if \<not> is_alpha (hd a) then Inr ([], s)
         else Inr (a, drop (Suc (length a)) s))"

definition valid_optional_port :: "string \<Rightarrow> bool" where
  "valid_optional_port p = (case p of [] \<Rightarrow> True | c # cs \<Rightarrow> c = CHR '':'' \<and> list_all is_digit cs)"

definition parse_host :: "(nat \<Rightarrow> bool) \<Rightarrow> (string \<Rightarrow> string + string) \<Rightarrow> string \<Rightarrow> string + string" where
  "parse_host printable brackets host =
     (if CHR ''['' \<in> set host then brackets host
      else (case last_index (CHR '':'') host of
              Some i \<Rightarrow>
                if \<not> valid_optional_port (drop i host) then
                  Inl (''invalid port '' @ go_quote printable (drop i host) @ '' after host'')
                else url_unescape printable In_Host host
            | None \<Rightarrow> url_unescape printable In_Host host))"

definition userinfo_char :: "char \<Rightarrow> bool" where
  "userinfo_char c \<longleftrightarrow> is_alpha c \<or> is_digit c \<or> c \<in> set ''-._:~!$&'' \<or> c = CHR 0x27 \<or> c \<in> set ''()*+,;=%@''"

definition parse_userinfo :: "(nat \<Rightarrow> bool) \<Rightarrow> string \<Rightarrow> string + string \<times> string option" where
  "parse_userinfo printable s =
     (if \<not> list_all userinfo_char s then Inl ''net/url: invalid userinfo''
      else if CHR '':'' \<notin> set s then
        (case url_unescape printable In_User s of Inl e \<Rightarrow> Inl e | Inr u \<Rightarrow> Inr (u, None))
      else (case cut (CHR '':'') s of (username, password) \<Rightarrow>
        (case url_unescape printable In_User username of
           Inl e \<Rightarrow> Inl e
         | Inr u \<Rightarrow> (case url_unescape printable In_User password of
                       Inl e \<Rightarrow> Inl e | Inr p \<Rightarrow> Inr (u, Some p)))))"

definition parse_authority ::
    "(nat \<Rightarrow> bool) \<Rightarrow> (string \<Rightarrow> string + string) \<Rightarrow> string \<Rightarrow> string + (string \<times> string option) option \<times> string" where
  "parse_authority printable brackets authority =
     (case last_index (CHR ''@'') authority of
        None \<Rightarrow> (case parse_host printable brackets authority of Inl e \<Rightarrow> Inl e | Inr h \<Rightarrow> Inr (None, h))
      | Some i \<Rightarrow>
          (case parse_host printable brackets (drop (Suc i) authority) of
             Inl e \<Rightarrow> Inl e
           | Inr h \<Rightarrow> (case parse_userinfo printable (take i authority) of
                         Inl e \<Rightarrow> Inl e | Inr u \<Rightarrow> Inr (Some u, h))))"

text \<open>The part after the scheme and the query were split off. A rest without a leading slash is opaque
  when there is a scheme, and then there is no host.\<close>

definition parse_rest ::
    "(nat \<Rightarrow> bool) \<Rightarrow> (string \<Rightarrow> string + string) \<Rightarrow> url \<Rightarrow> string \<Rightarrow> string + url" where
  "parse_rest printable brackets u rest =
     (if \<not> prefix ''/'' rest \<and> u_scheme u \<noteq> [] then Inr u
      else if \<not> prefix ''/'' rest \<and> CHR '':'' \<in> set (fst (cut (CHR ''/'') rest)) then
        Inl ''first path segment in URL cannot contain colon''
      else
        let has_authority = prefix ''//'' rest \<and> (u_scheme u \<noteq> [] \<or> \<not> prefix ''///'' rest);
            authority = takeWhile (\<lambda>c. c \<noteq> CHR ''/'') (drop 2 rest);
            path = (if has_authority then drop (length authority) (drop 2 rest) else rest)
        in case (if has_authority then parse_authority printable brackets authority else Inr (None, [])) of
             Inl e \<Rightarrow> Inl e
           | Inr (user, host) \<Rightarrow>
               (case url_unescape printable In_Path path of
                  Inl e \<Rightarrow> Inl e
                | Inr p \<Rightarrow> Inr (u\<lparr>u_user := user, u_host := host, u_path := p\<rparr>)))"

definition parse_url_text ::
    "(nat \<Rightarrow> bool) \<Rightarrow> (string \<Rightarrow> string + string) \<Rightarrow> string \<Rightarrow> string + url" where
  "parse_url_text printable brackets s =
     (if list_ex (\<lambda>c. (of_char c :: nat) < 32 \<or> (of_char c :: nat) = 127) s then
        Inl ''net/url: invalid control character in URL''
      else if s = ''*'' then Inr (empty_url\<lparr>u_path := ''*''\<rparr>)
      else (case get_scheme s of
              Inl e \<Rightarrow> Inl e
            | Inr (scheme, rest0) \<Rightarrow>
                (case cut (CHR ''?'') rest0 of (rest, query) \<Rightarrow>
                   parse_rest printable brackets
                     (empty_url\<lparr>u_scheme := to_lower scheme, u_rawQuery := query\<rparr>) rest)))"

text \<open>\<open>url.Parse\<close>. Its error holds the URL.\<close>

definition url_error :: "(nat \<Rightarrow> bool) \<Rightarrow> string \<Rightarrow> string \<Rightarrow> string" where
  "url_error printable raw e = ''parse '' @ go_quote printable raw @ '': '' @ e"

definition url_parse ::
    "(nat \<Rightarrow> bool) \<Rightarrow> (string \<Rightarrow> string + string) \<Rightarrow> string \<Rightarrow> string + url" where
  "url_parse printable brackets rawURL =
     (case cut (CHR ''#'') rawURL of (s, frag) \<Rightarrow>
        (case parse_url_text printable brackets s of
           Inl e \<Rightarrow> Inl (url_error printable s e)
         | Inr u \<Rightarrow>
             (case url_unescape printable In_Fragment frag of
                Inl e \<Rightarrow> Inl (url_error printable rawURL e)
              | Inr _ \<Rightarrow> Inr u)))"

section \<open>Parts\<close>

definition split_host_port :: "string \<Rightarrow> string \<times> string" where
  "split_host_port hostPort =
     (let (host, port) =
        (case last_index (CHR '':'') hostPort of
           Some i \<Rightarrow> if valid_optional_port (drop i hostPort) then (take i hostPort, drop (Suc i) hostPort)
                     else (hostPort, [])
         | None \<Rightarrow> (hostPort, []))
      in (if prefix ''['' host \<and> suffix '']'' host then drop 1 (butlast host) else host, port))"

definition url_hostname :: "url \<Rightarrow> string" where
  "url_hostname u = fst (split_host_port (u_host u))"

definition url_port :: "url \<Rightarrow> string" where
  "url_port u = snd (split_host_port (u_host u))"

text \<open>\<open>Query().Get(name)\<close>: the first value of the parameter among the well-formed ones.\<close>

definition query_pair :: "string \<Rightarrow> (string \<times> string) option" where
  "query_pair part =
     (if part = [] \<or> CHR '';'' \<in> set part then None
      else (case cut (CHR ''='') part of (k, v) \<Rightarrow>
        (case (url_unescape (\<lambda>_. True) In_Query k, url_unescape (\<lambda>_. True) In_Query v) of
           (Inr k', Inr v') \<Rightarrow> Some (k', v')
         | _ \<Rightarrow> None)))"

definition query_get :: "url \<Rightarrow> string \<Rightarrow> string" where
  "query_get u name =
     (case map_of (List.map_filter query_pair (split_on (CHR ''&'') (u_rawQuery u))) name of
        None \<Rightarrow> [] | Some v \<Rightarrow> v)"

end
