(* ===== verification/Db_Config.thy ===== *)
theory Db_Config
  imports Simulation Go_Url
begin

text \<open>
  \<open>parsePostgreSQLURI\<close> and \<open>getDBConfig\<close> of \<open>databasequeryresource_controller.go\<close>: the connection
  parameters of the database, read from the referenced Secret either as one URI or field by field.
  The result is the map the client's \<open>Connect\<close> takes.
\<close>

type_synonym db_config = "string smap"

text \<open>\<open>config[key]\<close>: empty for a key the map does not have.\<close>

definition config_get :: "db_config \<Rightarrow> string \<Rightarrow> string" where
  "config_get config key = (case fmlookup config key of None \<Rightarrow> [] | Some v \<Rightarrow> v)"

section \<open>The URI\<close>

definition parsePostgreSQLURI :: "('w, 'v, 'c) env \<Rightarrow> string \<Rightarrow> string + db_config" where
  "parsePostgreSQLURI K uri =
     (case url_parse (is_print K) (bracket_host K) uri of
        Inl e \<Rightarrow> Inl (''invalid URI format: '' @ e)
      | Inr parsedURL \<Rightarrow>
          if u_scheme parsedURL \<noteq> ''postgresql'' \<and> u_scheme parsedURL \<noteq> ''postgres'' then
            Inl (''unsupported scheme '' @ [CHR 0x27] @ u_scheme parsedURL @ [CHR 0x27] @
              '', expected '' @ [CHR 0x27] @ ''postgresql'' @ [CHR 0x27] @ '' or '' @
              [CHR 0x27] @ ''postgres'' @ [CHR 0x27])
          else
            let config1 =
                  (case u_user parsedURL of
                     None \<Rightarrow> fmempty
                   | Some (username, password) \<Rightarrow>
                       (case password of
                          None \<Rightarrow> fmupd ''username'' username fmempty
                        | Some p \<Rightarrow> fmupd ''password'' p (fmupd ''username'' username fmempty)));
                host = url_hostname parsedURL
            in if host = [] then Inl ''host not found in URI''
               else
                 let port = (if url_port parsedURL = [] then ''5432'' else url_port parsedURL);
                     config2 = fmupd ''port'' port (fmupd ''host'' host config1);
                     dbname = trim_prefix ''/'' (u_path parsedURL)
                 in if dbname = [] then Inl ''database name not found in URI''
                    else
                      let sslmode = query_get parsedURL ''sslmode''
                      in Inr (fmupd ''sslmode'' (if sslmode \<noteq> [] then sslmode else ''prefer'')
                                (fmupd ''dbname'' dbname config2)))"

section \<open>The Secret\<close>

definition secret_path :: "string \<Rightarrow> string \<Rightarrow> string" where
  "secret_path ns n = CHR 0x27 # ns @ ''/'' @ n @ [CHR 0x27]"

text \<open>The closure \<open>getValue\<close>; \<open>ref\<close> is the secret reference, \<open>label\<close> the quoted path of the
  secret.\<close>

definition secret_value ::
    "secret_ref \<Rightarrow> string smap \<Rightarrow> string \<Rightarrow> string \<Rightarrow> string \<Rightarrow> string + string" where
  "secret_value ref data label key0 defaultValue =
     (let key = (if key0 = [] then defaultValue else key0) in
      case fmlookup data key of
        Some value \<Rightarrow> Inr value
      | None \<Rightarrow>
          if key = ''sslmode'' \<and> sslModeKey ref = [] then Inr ''prefer''
          else Inl (''key '' @ [CHR 0x27] @ key @ [CHR 0x27] @ '' not found in secret '' @ label))"

text \<open>The keys that are read in order, the first missing one ends the function. The host is read
  before the optional \<open>readonly_host\<close>, the other keys after it.\<close>

fun read_keys :: "(string \<Rightarrow> string \<Rightarrow> string + string) \<Rightarrow> (string \<times> string \<times> string) list \<Rightarrow> db_config \<Rightarrow> string + db_config" where
  "read_keys getValue [] config = Inr config"
| "read_keys getValue ((name, key, dflt) # ks) config =
     (case getValue key dflt of
        Inl e \<Rightarrow> Inl e
      | Inr v \<Rightarrow> read_keys getValue ks (fmupd name v config))"

definition fields_config :: "secret_ref \<Rightarrow> string smap \<Rightarrow> string \<Rightarrow> string + db_config" where
  "fields_config ref data label =
     (let getValue = secret_value ref data label in
      case read_keys getValue [(''host'', hostKey ref, ''host'')] fmempty of
        Inl e \<Rightarrow> Inl e
      | Inr config \<Rightarrow>
          let config' =
            (if readonlyHostKey ref \<noteq> [] then
               fmupd ''readonly_host''
                 (case getValue (readonlyHostKey ref) ''readonly_host'' of Inl _ \<Rightarrow> [] | Inr v \<Rightarrow> v) config
             else (case fmlookup data ''readonly_host'' of
                     Some v \<Rightarrow> fmupd ''readonly_host'' v config
                   | None \<Rightarrow> config))
          in read_keys getValue
               [(''port'', portKey ref, ''port''), (''username'', userKey ref, ''username''),
                (''password'', passwordKey ref, ''password''), (''dbname'', dbNameKey ref, ''dbname''),
                (''sslmode'', sslModeKey ref, ''sslmode'')] config')"

text \<open>What \<open>getDBConfig\<close> does with the data of the secret.\<close>

definition config_of_secret ::
    "('w, 'v, 'c) env \<Rightarrow> secret_ref \<Rightarrow> string smap \<Rightarrow> string \<Rightarrow> string + db_config" where
  "config_of_secret K ref data label =
     (if uriKey ref \<noteq> [] then
        (case fmlookup data (uriKey ref) of
           None \<Rightarrow> Inl (''URIKey '' @ [CHR 0x27] @ uriKey ref @ [CHR 0x27] @ '' not found in secret '' @ label)
         | Some uri \<Rightarrow>
             (case parsePostgreSQLURI K uri of
                Inl e \<Rightarrow> Inl (''failed to parse PostgreSQL URI from key '' @ [CHR 0x27] @ uriKey ref @
                           [CHR 0x27] @ '': '' @ e)
              | Inr config \<Rightarrow> Inr config))
      else fields_config ref data label)"

definition getDBConfig :: "('w, 'v, 'c) env \<Rightarrow> dbqr \<Rightarrow> ('w, string + db_config) prog" where
  "getDBConfig K d =
     (let ref = connectionSecretRef (database (spec d));
          ns = (if sr_namespace ref = [] then d_namespace d else sr_namespace ref);
          label = secret_path ns (sr_name ref)
      in do {
        r \<leftarrow> call (get_secret K ns (sr_name ref)) (\<lambda>_. Got_Secret ns (sr_name ref));
        State_Monad.return (case r of
          Inl err \<Rightarrow>
            if is_not_found err then Inl (''secret '' @ label @ '' not found'')
            else Inl (''failed to get secret '' @ label @ '': '' @ error_text err)
        | Inr data \<Rightarrow> config_of_secret K ref data label)
      })"

section \<open>What a configuration holds\<close>




lemma secret_value_cases:
  "secret_value ref data label key dflt =
     (case fmlookup data (if key = [] then dflt else key) of
        Some v \<Rightarrow> Inr v
      | None \<Rightarrow> if (if key = [] then dflt else key) = ''sslmode'' \<and> sslModeKey ref = [] then Inr ''prefer''
                else Inl (''key '' @ [CHR 0x27] @ (if key = [] then dflt else key) @ [CHR 0x27] @
                      '' not found in secret '' @ label))"
  by (simp add: secret_value_def Let_def)


lemma emits_getDBConfig [emits_intros]:
  "(\<And>ns n. A (Got_Secret ns n)) \<Longrightarrow> emits A (getDBConfig K d)"
  unfolding getDBConfig_def Let_def by (intro emits_intros emits_call) auto

section \<open>What an error holds\<close>

text \<open>Text that \<open>%q\<close> only puts quotes around.\<close>

definition quote_plain :: "char \<Rightarrow> bool" where
  "quote_plain c \<longleftrightarrow> 32 \<le> (of_char c :: nat) \<and> (of_char c :: nat) < 127 \<and> c \<noteq> CHR 0x22 \<and> c \<noteq> CHR 0x5C"

lemma of_char_quotes: "(of_char c :: nat) = 34 \<longleftrightarrow> c = CHR 0x22" "(of_char c :: nat) = 92 \<longleftrightarrow> c = CHR 0x5C"
proof -
  have "(of_char (CHR 0x22) :: nat) = 34" "(of_char (CHR 0x5C) :: nat) = 92" by simp_all
  then show "(of_char c :: nat) = 34 \<longleftrightarrow> c = CHR 0x22" "(of_char c :: nat) = 92 \<longleftrightarrow> c = CHR 0x5C"
    by (metis of_char_eq_iff)+
qed

lemma quote_body_plain: "list_all quote_plain s \<Longrightarrow> quote_body printable s = s"
proof (induction s)
  case (Cons c s)
  then have c: "32 \<le> (of_char c :: nat)" "(of_char c :: nat) < 127" "(of_char c :: nat) \<noteq> 34" "(of_char c :: nat) \<noteq> 92"
    by (simp_all add: quote_plain_def of_char_quotes)
  then have "escape_rune printable (of_char c) = [c]"
    by (simp add: escape_rune_def encode_rune_def)
  with Cons c show ?case by (simp add: rune_error_def)
qed simp

text \<open>A URI that does not parse is in the error, as it is in the Secret.\<close>

lemma config_error_has_uri:
  assumes "uriKey ref \<noteq> []" "fmlookup data (uriKey ref) = Some uri"
    and "isl (url_parse (is_print K) (bracket_host K) uri)" "list_all quote_plain uri" "CHR ''#'' \<notin> set uri"
  shows "\<exists>e. config_of_secret K ref data label = Inl e \<and> sublist uri e"
proof -
  have t: "takeWhile (\<lambda>x. x \<noteq> CHR ''#'') uri = uri"
    using assms(5) by (subst takeWhile_eq_all_conv) blast
  have "cut (CHR ''#'') uri = (uri, [])" unfolding cut_def Let_def t by simp
  then obtain e where e: "url_parse (is_print K) (bracket_host K) uri = Inl (url_error (is_print K) uri e)"
    using assms(3) by (auto simp: url_parse_def split: sum.splits)
  let ?before = "''failed to parse PostgreSQL URI from key '' @ [CHR 0x27] @ uriKey ref @ [CHR 0x27] @ '': '' @
    ''invalid URI format: '' @ ''parse '' @ [CHR 0x22]"
  have "config_of_secret K ref data label = Inl (?before @ uri @ CHR 0x22 # '': '' @ e)"
    using assms(1,2) e
    by (simp add: config_of_secret_def parsePostgreSQLURI_def url_error_def go_quote_def quote_body_plain [OF assms(4)])
  moreover have "sublist uri (?before @ uri @ CHR 0x22 # '': '' @ e)" by (rule sublist_appendI)
  ultimately show ?thesis by blast
qed

section \<open>Properties\<close>


definition uri_ref :: secret_ref where
  "uri_ref = connectionSecretRef (database sim_spec)"


text \<open>\<open>sslmode\<close> is the one field that may be missing, and only under its default name: then it is
  \<open>prefer\<close>. Any other missing key is an error that names the key and the secret.\<close>

theorem secret_value_missing:
  assumes "fmlookup data (if key = [] then dflt else key) = None"
  shows "secret_value ref data label key dflt =
    (if (if key = [] then dflt else key) = ''sslmode'' \<and> sslModeKey ref = [] then Inr ''prefer''
     else Inl (''key '' @ [CHR 0x27] @ (if key = [] then dflt else key) @ [CHR 0x27] @
            '' not found in secret '' @ label))"
  using assms by (simp add: secret_value_cases)

theorem secret_value_missing_witness:
  "secret_value uri_ref fmempty ''s'' [] ''sslmode'' = Inr ''prefer'' \<and>
   isl (secret_value uri_ref fmempty ''s'' [] ''host'')"
  using secret_value_missing [of fmempty "[]" "''sslmode''" uri_ref "''s''"]
    secret_value_missing [of fmempty "[]" "''host''" uri_ref "''s''"]
  by (simp add: uri_ref_def sim_spec_def)

end
