(* ===== verification/Sql_Statements.thy ===== *)
theory Sql_Statements
  imports Go_Strings
begin

text \<open>
  \<open>splitStatements\<close> of \<open>internal/util/postgres_client.go\<close>: the scanner that cuts a query into
  statements at semicolons outside single quotes, double quotes and dollar quotes. The loop over the
  slice of runes is recursion over the list of runes; its local variables are a record.
  The lemmas describe one step per kind of rune; \<open>segment\<close> is the token level reading of a query
  the scanner is compared with.
\<close>

record split_state =
  statements :: "string list"
  current :: string
  inSingleQuote :: bool
  inDoubleQuote :: bool
  inDollarQuote :: bool
  dollarTag :: string

definition split_init :: split_state where
  "split_init = \<lparr>statements = [], current = [], inSingleQuote = False, inDoubleQuote = False,
     inDollarQuote = False, dollarTag = []\<rparr>"

text \<open>Add the trimmed text collected so far to the statements, unless it is empty.\<close>

definition flush_statement :: "split_state \<Rightarrow> string list" where
  "flush_statement st =
     (let stmt = trim_space (current st)
      in if stmt \<noteq> [] then statements st @ [stmt] else statements st)"

text \<open>The part of the loop body after the dollar quote check, for the rune \<open>ch\<close>.\<close>

definition split_rune :: "nat \<Rightarrow> split_state \<Rightarrow> split_state" where
  "split_rune ch st =
     (if ch = of_char (CHR 0x27) \<and> \<not> inDoubleQuote st \<and> \<not> inDollarQuote st then
        st\<lparr>inSingleQuote := \<not> inSingleQuote st, current := current st @ encode_rune ch\<rparr>
      else if ch = of_char (CHR 0x22) \<and> \<not> inSingleQuote st \<and> \<not> inDollarQuote st then
        st\<lparr>inDoubleQuote := \<not> inDoubleQuote st, current := current st @ encode_rune ch\<rparr>
      else if ch = of_char (CHR '';'') \<and> \<not> inSingleQuote st \<and> \<not> inDoubleQuote st
              \<and> \<not> inDollarQuote st then
        st\<lparr>statements := flush_statement st, current := []\<rparr>
      else st\<lparr>current := current st @ encode_rune ch\<rparr>)"

text \<open>
  The loop. At a dollar sign outside the other quotes the text up to the next dollar sign is a
  candidate tag (\<open>tagEnd\<close>); without a next dollar sign, or inside a dollar quote of another tag, the
  rune is handled like any other.
\<close>

fun split_loop :: "nat list \<Rightarrow> split_state \<Rightarrow> split_state" where
  "split_loop [] st = st"
| "split_loop (ch # rs) st =
     (let tag = takeWhile (\<lambda>r. r \<noteq> of_char (CHR ''$'')) rs;
          found = (length tag < length rs);
          currentTag = string_of_runes (ch # tag @ [of_char (CHR ''$'')]);
          rest = drop (Suc (length tag)) rs
      in if ch = of_char (CHR ''$'') \<and> \<not> inSingleQuote st \<and> \<not> inDoubleQuote st
            \<and> found \<and> \<not> inDollarQuote st then
           split_loop rest
             (st\<lparr>inDollarQuote := True, dollarTag := currentTag,
                 current := current st @ currentTag\<rparr>)
         else if ch = of_char (CHR ''$'') \<and> \<not> inSingleQuote st \<and> \<not> inDoubleQuote st
            \<and> found \<and> currentTag = dollarTag st then
           split_loop rest
             (st\<lparr>inDollarQuote := False, current := current st @ currentTag, dollarTag := []\<rparr>)
         else split_loop rs (split_rune ch st))"

declare split_loop.simps(2) [simp del]

definition splitStatements :: "string \<Rightarrow> string list" where
  "splitStatements query = flush_statement (split_loop (runes query) split_init)"

section \<open>Every statement is trimmed and not empty\<close>

definition is_statement :: "string \<Rightarrow> bool" where
  "is_statement s \<longleftrightarrow> s \<noteq> [] \<and> trim_space s = s"

definition statements_ok :: "split_state \<Rightarrow> bool" where
  "statements_ok st \<longleftrightarrow> list_all is_statement (statements st)"

lemma flush_statement_ok: "statements_ok st \<Longrightarrow> list_all is_statement (flush_statement st)"
  by (simp add: flush_statement_def statements_ok_def is_statement_def Let_def)

lemma split_rune_ok: "statements_ok st \<Longrightarrow> statements_ok (split_rune ch st)"
  using flush_statement_ok [of st] by (simp add: split_rune_def statements_ok_def)

lemma statements_ok_frame [simp]:
  "statements_ok (st\<lparr>inDollarQuote := b, dollarTag := t, current := c\<rparr>) = statements_ok st"
  "statements_ok (st\<lparr>inDollarQuote := b, current := c, dollarTag := t\<rparr>) = statements_ok st"
  by (simp_all add: statements_ok_def)

lemma split_loop_ok: "statements_ok st \<Longrightarrow> statements_ok (split_loop rs st)"
proof (induction "length rs" arbitrary: rs st rule: less_induct)
  case less
  show ?case
  proof (cases rs)
    case Nil
    with less show ?thesis by simp
  next
    case (Cons ch rs')
    have "length rs' < length rs" "\<And>n. length (drop n rs') < length rs"
      by (simp_all add: Cons)
    note IH = less.hyps [OF this(1)] less.hyps [OF this(2)]
    show ?thesis
      unfolding Cons split_loop.simps Let_def using less.prems
      by (simp add: IH split_rune_ok)
  qed
qed

section \<open>The token level reading of a query\<close>

text \<open>
  A query as a sequence of plain text, quoted texts and semicolons, each text a list of runes.
  \<open>wf_segment\<close> is what makes the reading unambiguous: plain text holds none of the special runes, a
  quoted text not its own delimiter. \<open>render\<close> writes it out.
\<close>

datatype segment =
    Plain "nat list"
  | SingleQuoted "nat list"
  | DoubleQuoted "nat list"
  | DollarQuoted "nat list" "nat list"
  | Semicolon

fun wf_segment :: "segment \<Rightarrow> bool" where
  "wf_segment (Plain t) \<longleftrightarrow> (\<forall>r \<in> set t. scalar r \<and> r \<notin> {36, 39, 34, 59})"
| "wf_segment (SingleQuoted t) \<longleftrightarrow> (\<forall>r \<in> set t. scalar r \<and> r \<noteq> 39)"
| "wf_segment (DoubleQuoted t) \<longleftrightarrow> (\<forall>r \<in> set t. scalar r \<and> r \<noteq> 34)"
| "wf_segment (DollarQuoted tag t) \<longleftrightarrow> (\<forall>r \<in> set (tag @ t). scalar r \<and> r \<noteq> 36)"
| "wf_segment Semicolon \<longleftrightarrow> True"

fun segment_runes :: "segment \<Rightarrow> nat list" where
  "segment_runes (Plain t) = t"
| "segment_runes (SingleQuoted t) = 39 # t @ [39]"
| "segment_runes (DoubleQuoted t) = 34 # t @ [34]"
| "segment_runes (DollarQuoted tag t) = (36 # tag @ [36]) @ t @ (36 # tag @ [36])"
| "segment_runes Semicolon = [59]"

definition render :: "segment list \<Rightarrow> string" where
  "render segs = string_of_runes (concat (map segment_runes segs))"

text \<open>The segments between semicolons.\<close>

fun segment_groups :: "segment list \<Rightarrow> segment list list" where
  "segment_groups [] = [[]]"
| "segment_groups (Semicolon # segs) = [] # segment_groups segs"
| "segment_groups (seg # segs) =
     (case segment_groups segs of [] \<Rightarrow> [[seg]] | g # gs \<Rightarrow> (seg # g) # gs)"

text \<open>What the scanner is meant to return.\<close>

definition statements_of :: "segment list \<Rightarrow> string list" where
  "statements_of segs = filter (\<lambda>s. s \<noteq> []) (map (\<lambda>g. trim_space (render g)) (segment_groups segs))"

section \<open>The scanner on one segment\<close>

definition outside :: "split_state \<Rightarrow> bool" where
  "outside st \<longleftrightarrow> \<not> inSingleQuote st \<and> \<not> inDoubleQuote st \<and> \<not> inDollarQuote st"

lemma split_loop_plain:
  "\<forall>r \<in> set t. r \<notin> {36, 39, 34, 59} \<Longrightarrow> outside st \<Longrightarrow>
   split_loop (t @ rs) st = split_loop rs (st\<lparr>current := current st @ string_of_runes t\<rparr>)"
proof (induction t arbitrary: st)
  case Nil
  then show ?case by simp
next
  case (Cons r t)
  then show ?case by (simp add: split_loop.simps(2) Let_def split_rune_def outside_def del: string_of_runes_simps(3))
qed

lemma split_loop_in_single:
  "\<forall>r \<in> set t. r \<noteq> 39 \<Longrightarrow> inSingleQuote st \<Longrightarrow> \<not> inDoubleQuote st \<Longrightarrow>
   split_loop (t @ rs) st = split_loop rs (st\<lparr>current := current st @ string_of_runes t\<rparr>)"
proof (induction t arbitrary: st)
  case Nil
  then show ?case by simp
next
  case (Cons r t)
  then show ?case by (simp add: split_loop.simps(2) Let_def split_rune_def del: string_of_runes_simps(3))
qed

lemma split_loop_in_double:
  "\<forall>r \<in> set t. r \<noteq> 34 \<Longrightarrow> inDoubleQuote st \<Longrightarrow> \<not> inSingleQuote st \<Longrightarrow>
   split_loop (t @ rs) st = split_loop rs (st\<lparr>current := current st @ string_of_runes t\<rparr>)"
proof (induction t arbitrary: st)
  case Nil
  then show ?case by simp
next
  case (Cons r t)
  then show ?case by (simp add: split_loop.simps(2) Let_def split_rune_def del: string_of_runes_simps(3))
qed

lemma split_loop_in_dollar:
  "\<forall>r \<in> set t. r \<noteq> 36 \<Longrightarrow> inDollarQuote st \<Longrightarrow> \<not> inSingleQuote st \<Longrightarrow> \<not> inDoubleQuote st \<Longrightarrow>
   split_loop (t @ rs) st = split_loop rs (st\<lparr>current := current st @ string_of_runes t\<rparr>)"
proof (induction t arbitrary: st)
  case Nil
  then show ?case by simp
next
  case (Cons r t)
  then show ?case by (simp add: split_loop.simps(2) Let_def split_rune_def del: string_of_runes_simps(3))
qed

lemma takeWhile_tag: "\<forall>r \<in> set tag. r \<noteq> d \<Longrightarrow> takeWhile (\<lambda>r. r \<noteq> d) (tag @ d # rs) = tag"
  by (induction tag) auto

lemma split_loop_open_dollar:
  "\<forall>r \<in> set tag. r \<noteq> 36 \<Longrightarrow> outside st \<Longrightarrow>
   split_loop (36 # tag @ 36 # rs) st =
     split_loop rs (st\<lparr>inDollarQuote := True, dollarTag := string_of_runes (36 # tag @ [36]),
       current := current st @ string_of_runes (36 # tag @ [36])\<rparr>)"
  by (simp add: split_loop.simps(2) Let_def takeWhile_tag outside_def del: string_of_runes_simps)

lemma split_loop_close_dollar:
  "\<forall>r \<in> set tag. r \<noteq> 36 \<Longrightarrow> \<not> inSingleQuote st \<Longrightarrow> \<not> inDoubleQuote st \<Longrightarrow> inDollarQuote st \<Longrightarrow>
   dollarTag st = string_of_runes (36 # tag @ [36]) \<Longrightarrow>
   split_loop (36 # tag @ 36 # rs) st =
     split_loop rs (st\<lparr>inDollarQuote := False,
       current := current st @ string_of_runes (36 # tag @ [36]), dollarTag := []\<rparr>)"
  by (simp add: split_loop.simps(2) Let_def takeWhile_tag del: string_of_runes_simps)

text \<open>A quoted segment leaves the scanner outside every quote, with its text collected.\<close>

lemma split_loop_segment:
  assumes "wf_segment seg" "seg \<noteq> Semicolon" "outside st" "dollarTag st = []"
  shows "split_loop (segment_runes seg @ rs) st =
     split_loop rs (st\<lparr>current := current st @ string_of_runes (segment_runes seg)\<rparr>)"
proof (cases seg)
  case (Plain t)
  with assms show ?thesis by (simp add: split_loop_plain)
next
  case (SingleQuoted t)
  then have t: "\<forall>r \<in> set t. r \<noteq> 39" using assms(1) by simp
  let ?st = "st\<lparr>inSingleQuote := True, current := current st @ encode_rune 39\<rparr>"
  have "split_loop (segment_runes seg @ rs) st = split_loop (t @ 39 # rs) ?st"
    using assms(3) SingleQuoted by (simp add: split_loop.simps(2) Let_def split_rune_def outside_def)
  also have "\<dots> = split_loop (39 # rs) (?st\<lparr>current := current ?st @ string_of_runes t\<rparr>)"
    using t assms(3) by (intro split_loop_in_single) (simp_all add: outside_def)
  also have "\<dots> = split_loop rs (st\<lparr>current := current st @ string_of_runes (segment_runes seg)\<rparr>)"
    using assms(3) SingleQuoted by (cases st) (simp add: split_loop.simps(2) Let_def split_rune_def outside_def)
  finally show ?thesis .
next
  case (DoubleQuoted t)
  then have t: "\<forall>r \<in> set t. r \<noteq> 34" using assms(1) by simp
  let ?st = "st\<lparr>inDoubleQuote := True, current := current st @ encode_rune 34\<rparr>"
  have "split_loop (segment_runes seg @ rs) st = split_loop (t @ 34 # rs) ?st"
    using assms(3) DoubleQuoted by (simp add: split_loop.simps(2) Let_def split_rune_def outside_def)
  also have "\<dots> = split_loop (34 # rs) (?st\<lparr>current := current ?st @ string_of_runes t\<rparr>)"
    using t assms(3) by (intro split_loop_in_double) (simp_all add: outside_def)
  also have "\<dots> = split_loop rs (st\<lparr>current := current st @ string_of_runes (segment_runes seg)\<rparr>)"
    using assms(3) DoubleQuoted by (cases st) (simp add: split_loop.simps(2) Let_def split_rune_def outside_def)
  finally show ?thesis .
next
  case (DollarQuoted tag t)
  then have t: "\<forall>r \<in> set t. r \<noteq> 36" and tag: "\<forall>r \<in> set tag. r \<noteq> 36" using assms(1) by auto
  let ?tag = "string_of_runes (36 # tag @ [36])"
  let ?st = "st\<lparr>inDollarQuote := True, dollarTag := ?tag, current := current st @ ?tag\<rparr>"
  let ?st' = "?st\<lparr>current := current ?st @ string_of_runes t\<rparr>"
  have "split_loop (segment_runes seg @ rs) st = split_loop (t @ 36 # tag @ 36 # rs) ?st"
    using split_loop_open_dollar [OF tag assms(3)] DollarQuoted by simp
  also have "\<dots> = split_loop (36 # tag @ 36 # rs) ?st'"
    using t assms(3) by (intro split_loop_in_dollar) (simp_all add: outside_def)
  also have "\<dots> = split_loop rs (?st'\<lparr>inDollarQuote := False,
      current := current ?st' @ ?tag, dollarTag := []\<rparr>)"
    using tag assms(3) by (intro split_loop_close_dollar) (simp_all add: outside_def)
  also have "?st'\<lparr>inDollarQuote := False, current := current ?st' @ ?tag, dollarTag := []\<rparr> =
      st\<lparr>current := current st @ string_of_runes (segment_runes seg)\<rparr>"
    using assms(3,4) DollarQuoted by (cases st) (simp add: outside_def)
  finally show ?thesis .
next
  case Semicolon
  with assms(2) show ?thesis by simp
qed

lemma split_loop_semicolon:
  "outside st \<Longrightarrow> split_loop (59 # rs) st =
     split_loop rs (st\<lparr>statements := flush_statement st, current := []\<rparr>)"
  by (simp add: split_loop.simps(2) Let_def split_rune_def outside_def)

lemma segment_groups_not_Nil [simp]: "segment_groups segs \<noteq> []"
  by (induction segs rule: segment_groups.induct) (auto split: list.splits)

lemma segment_groups_other:
  "seg \<noteq> Semicolon \<Longrightarrow> segment_groups (seg # segs) =
     (seg # hd (segment_groups segs)) # tl (segment_groups segs)"
  by (cases seg) (auto split: list.splits)

lemma render_Cons: "render (seg # segs) = string_of_runes (segment_runes seg) @ render segs"
  by (simp add: render_def)

lemma render_Nil [simp]: "render [] = []"
  by (simp add: render_def)

lemma split_loop_render:
  assumes "\<forall>seg \<in> set segs. wf_segment seg" "outside st" "dollarTag st = []"
  shows "flush_statement (split_loop (concat (map segment_runes segs)) st) =
    statements st @ filter (\<lambda>s. s \<noteq> [])
      (trim_space (current st @ render (hd (segment_groups segs))) #
       map (\<lambda>g. trim_space (render g)) (tl (segment_groups segs)))"
  using assms
proof (induction segs arbitrary: st)
  case Nil
  then show ?case by (simp add: flush_statement_def Let_def)
next
  case (Cons seg segs)
  show ?case
  proof (cases "seg = Semicolon")
    case True
    with Cons.prems have st: "outside (st\<lparr>statements := flush_statement st, current := []\<rparr>)"
      by (simp add: outside_def)
    have "hd (segment_groups segs) # tl (segment_groups segs) = segment_groups segs" by simp
    then have groups: "map (\<lambda>g. trim_space (render g)) (segment_groups segs) =
        trim_space (render (hd (segment_groups segs))) #
        map (\<lambda>g. trim_space (render g)) (tl (segment_groups segs))"
      by (metis (no_types, lifting) list.simps(9))
    let ?st = "st\<lparr>statements := flush_statement st, current := []\<rparr>"
    have "flush_statement (split_loop (concat (map segment_runes (seg # segs))) st) =
        flush_statement (split_loop (concat (map segment_runes segs)) ?st)"
      using True Cons.prems by (simp add: split_loop_semicolon)
    also have "\<dots> = statements ?st @ filter (\<lambda>s. s \<noteq> [])
        (map (\<lambda>g. trim_space (render g)) (segment_groups segs))"
      unfolding groups using Cons.IH [OF _ st] Cons.prems by simp
    finally show ?thesis
      using True by (simp add: flush_statement_def Let_def)
  next
    case False
    with Cons show ?thesis
      by (simp add: split_loop_segment segment_groups_other render_Cons outside_def)
  qed
qed

lemma segment_runes_scalar: "wf_segment seg \<Longrightarrow> r \<in> set (segment_runes seg) \<Longrightarrow> scalar r"
  by (cases seg) (auto simp: scalar_def)

lemma runes_render:
  "\<forall>seg \<in> set segs. wf_segment seg \<Longrightarrow> runes (render segs) = concat (map segment_runes segs)"
  using runes_string_of_runes [of "concat (map segment_runes segs)" "[]"]
  by (auto simp: render_def intro: segment_runes_scalar)

lemma splitStatements_render:
  assumes "\<forall>seg \<in> set segs. wf_segment seg"
  shows "splitStatements (render segs) = statements_of segs"
proof -
  have "outside split_init" "dollarTag split_init = []"
    by (simp_all add: outside_def split_init_def)
  moreover have "map (\<lambda>g. trim_space (render g)) (segment_groups segs) =
      trim_space (render (hd (segment_groups segs))) #
      map (\<lambda>g. trim_space (render g)) (tl (segment_groups segs))"
    by (metis list.collapse list.simps(9) segment_groups_not_Nil)
  ultimately show ?thesis
    using split_loop_render [OF assms, of split_init]
    by (simp add: splitStatements_def runes_render assms statements_of_def split_init_def)
qed

lemma splitStatements_statement: "s \<in> set (splitStatements q) \<Longrightarrow> is_statement s"
  using flush_statement_ok [OF split_loop_ok, of split_init]
  by (auto simp: splitStatements_def statements_ok_def split_init_def list_all_iff)

text \<open>A dollar sign opens a quote even where PostgreSQL reads it as part of an identifier: the text up to
  the next dollar sign becomes the tag, whatever it holds, and what follows is inside the quote.\<close>

lemma split_loop_two_dollars:
  assumes "\<forall>r \<in> set pre. r \<notin> {36, 39, 34, 59}" "\<forall>r \<in> set (tag @ rest). r \<noteq> 36"
  shows "current (split_loop (pre @ 36 # tag @ 36 # rest) split_init) =
      string_of_runes (pre @ 36 # tag @ 36 # rest) \<and>
    statements (split_loop (pre @ 36 # tag @ 36 # rest) split_init) = []"
proof -
  let ?tag = "string_of_runes (36 # tag @ [36])"
  let ?st = "split_init\<lparr>current := string_of_runes pre\<rparr>"
  let ?st' = "?st\<lparr>inDollarQuote := True, dollarTag := ?tag, current := current ?st @ ?tag\<rparr>"
  have o: "outside split_init" "outside ?st" by (simp_all add: outside_def split_init_def)
  have "split_loop (pre @ 36 # tag @ 36 # rest) split_init = split_loop (36 # tag @ 36 # rest) ?st"
    using split_loop_plain [OF assms(1) o(1), of "36 # tag @ 36 # rest"] by (simp add: split_init_def)
  also have "\<dots> = split_loop (rest @ []) ?st'"
    using assms(2) split_loop_open_dollar [OF _ o(2), of tag rest] by simp
  also have "\<dots> = ?st'\<lparr>current := current ?st' @ string_of_runes rest\<rparr>"
    using assms(2) by (subst split_loop_in_dollar) (simp_all add: split_init_def)
  finally show ?thesis by (simp add: split_init_def)
qed

section \<open>Properties\<close>

text \<open>C24: On a query that is read as a sequence of plain text, quoted texts and semicolons, the scanner
  returns exactly the trimmed, non-empty texts between the semicolons that stand outside quotes.\<close>

theorem splitStatements_spec:
  assumes "\<forall>seg \<in> set segs. wf_segment seg"
  shows "splitStatements (render segs) = statements_of segs"
  using assms by (rule splitStatements_render)

theorem splitStatements_spec_witness:
  "splitStatements (render [Plain [83], SingleQuoted [59], Semicolon, DollarQuoted [] [59], Semicolon]) =
     statements_of [Plain [83], SingleQuoted [59], Semicolon, DollarQuoted [] [59], Semicolon]"
proof -
  let ?segs = "[Plain [83], SingleQuoted [59], Semicolon, DollarQuoted [] [59], Semicolon]"
  have "\<forall>seg \<in> set ?segs. wf_segment seg" by (simp add: scalar_def)
  then show ?thesis by (rule splitStatements_spec)
qed

text \<open>Whatever the query, every statement is not empty and has no white space at its ends; so the
  database is never sent an empty statement.\<close>

theorem splitStatements_trimmed:
  "list_all (\<lambda>s. s \<noteq> [] \<and> trim_space s = s) (splitStatements q)"
  using splitStatements_statement [of _ q] by (auto simp: list_all_iff is_statement_def)

text \<open>C37: In a query with two dollar signs the first of which is not inside quotes, both dollar signs are
  taken for the start of one dollar quote, whatever stands before them, also the letter of an identifier,
  where PostgreSQL reads the dollar sign as part of the name. Semicolons after the first dollar sign then
  separate nothing: the whole query is one statement. (The query is given by its runes; before the first
  dollar sign it has no quote and no semicolon.)\<close>

theorem splitStatements_joins_dollar_identifiers:
  assumes "\<forall>r \<in> set pre. r \<notin> {36, 39, 34, 59}" "\<forall>r \<in> set (tag @ rest). r \<noteq> 36"
    and "\<forall>r \<in> set (pre @ tag @ rest). scalar r"
  shows "splitStatements (string_of_runes (pre @ 36 # tag @ 36 # rest)) =
    [trim_space (string_of_runes (pre @ 36 # tag @ 36 # rest))]"
proof -
  let ?q = "pre @ 36 # tag @ 36 # rest"
  have "\<forall>r \<in> set ?q. scalar r" using assms(3) by (auto simp: scalar_def)
  then have r: "runes (string_of_runes ?q) = ?q" using runes_string_of_runes [of ?q "[]"] by simp
  have "encode_rune 36 = ''$''" by code_simp
  then have "CHR ''$'' \<in> set (string_of_runes ?q)" by simp
  then have "CHR ''$'' \<in> set (trim_space (string_of_runes ?q))"
    by (rule trim_space_keeps) (simp add: space_encodings_def)
  then have "trim_space (string_of_runes ?q) \<noteq> []" by auto
  then show ?thesis
    using split_loop_two_dollars [OF assms(1,2)]
    by (simp add: splitStatements_def r flush_statement_def Let_def del: string_of_runes_simps)
qed

text \<open>Two statements that name the columns \<open>a$b\<close> and \<open>c$d\<close>, and the same with the columns \<open>ab\<close> and \<open>cd\<close>.\<close>

theorem splitStatements_joins_dollar_identifiers_witness:
  "splitStatements ''SELECT a$b FROM t; SELECT c$d FROM t'' = [''SELECT a$b FROM t; SELECT c$d FROM t''] \<and>
   splitStatements ''SELECT ab FROM t; SELECT cd FROM t'' = [''SELECT ab FROM t'', ''SELECT cd FROM t'']"
proof
  let ?pre = "map of_char ''SELECT a'' :: nat list" and ?tag = "map of_char ''b FROM t; SELECT c'' :: nat list"
    and ?rest = "map of_char ''d FROM t'' :: nat list"
  have "\<forall>r \<in> set ?pre. r \<notin> {36, 39, 34, 59}" "\<forall>r \<in> set (?tag @ ?rest). r \<noteq> 36"
    "\<forall>r \<in> set (?pre @ ?tag @ ?rest). scalar r"
    by (simp_all add: scalar_def)
  note j = splitStatements_joins_dollar_identifiers [OF this]
  have q: "string_of_runes (?pre @ 36 # ?tag @ 36 # ?rest) = ''SELECT a$b FROM t; SELECT c$d FROM t''" by code_simp
  have "trim_space ''SELECT a$b FROM t; SELECT c$d FROM t'' = ''SELECT a$b FROM t; SELECT c$d FROM t''" by code_simp
  with j show "splitStatements ''SELECT a$b FROM t; SELECT c$d FROM t'' = [''SELECT a$b FROM t; SELECT c$d FROM t'']"
    unfolding q by simp
  show "splitStatements ''SELECT ab FROM t; SELECT cd FROM t'' = [''SELECT ab FROM t'', ''SELECT cd FROM t'']"
    by code_simp
qed

end
