(* ===== verification/Postgres.thy ===== *)
theory Postgres
  imports Db_Config Sql_Statements Simulation
begin

text \<open>
  \<open>internal/util/postgres_client.go\<close> and \<open>mock_database_client.go\<close>: the two implementations of
  \<open>DatabaseClient\<close>. A connection of the driver is a value of type \<open>'c\<close>, equal values are one
  connection. \<open>postgres_client\<close> packs a connected client into the record of methods the reconciler
  uses.
\<close>

section \<open>Logging a connection string\<close>

definition redactPassword :: "string \<Rightarrow> string" where
  "redactPassword connString =
     (case last_index (CHR ''@'') connString of
        None \<Rightarrow> connString
      | Some atIdx \<Rightarrow>
          (case last_index (CHR '':'') (take atIdx connString) of
             None \<Rightarrow> connString
           | Some colonIdx \<Rightarrow>
               (case str_index ''://'' connString of
                  None \<Rightarrow> connString
                | Some schemeEnd \<Rightarrow>
                    if colonIdx < schemeEnd + 3 then connString
                    else take (colonIdx + 1) connString @ ''***'' @ drop atIdx connString)))"

definition conn_string :: "db_config \<Rightarrow> string \<Rightarrow> string" where
  "conn_string config host =
     ''postgres://'' @ config_get config ''username'' @ '':'' @ config_get config ''password'' @ ''@'' @
     host @ '':'' @ config_get config ''port'' @ ''/'' @ config_get config ''dbname'' @
     ''?sslmode='' @ config_get config ''sslmode''"

section \<open>The client\<close>

text \<open>\<open>PostgresDatabaseClient\<close>: its pointers are nil before \<open>Connect\<close>.\<close>

record 'c pg_client =
  connWrite :: "'c option"
  connRead :: "'c option"

definition Connect :: "('w, 'v, 'c) env \<Rightarrow> db_config \<Rightarrow> 'w \<Rightarrow> (string + 'c pg_client) \<times> 'w" where
  "Connect K config w =
     (let writeString = conn_string config (config_get config ''host'') in
      case pgx_connect K writeString w of
        (Inl err, w1) \<Rightarrow>
          (Inl (''failed to connect to database: '' @ err @ '' (conn: '' @ redactPassword writeString @ '')''), w1)
      | (Inr cw, w1) \<Rightarrow>
          (if config_get config ''readonly_host'' \<noteq> [] then
             (case pgx_connect K (conn_string config (config_get config ''readonly_host'')) w1 of
                (Inl _, w2) \<Rightarrow> (Inr \<lparr>connWrite = Some cw, connRead = Some cw\<rparr>, w2)
              | (Inr r, w2) \<Rightarrow> (Inr \<lparr>connWrite = Some cw, connRead = Some r\<rparr>, w2))
           else (Inr \<lparr>connWrite = Some cw, connRead = Some cw\<rparr>, w1)))"

text \<open>A row is the map of the column names to its values, in which the last column of a name wins.
  Rows stop at the first one that cannot be read.\<close>

fun collect_rows :: "string list \<Rightarrow> (string + 'v list) list \<Rightarrow> string + 'v smap list" where
  "collect_rows columns [] = Inr []"
| "collect_rows columns (r # rs) =
     (case r of
        Inl err \<Rightarrow> Inl err
      | Inr values \<Rightarrow>
          (case collect_rows columns rs of
             Inl err \<Rightarrow> Inl err
           | Inr results \<Rightarrow> Inr (fmap_of_list (rev (zip columns values)) # results)))"

definition executeSingleQuery ::
    "('w, 'v, 'c) env \<Rightarrow> 'c \<Rightarrow> string \<Rightarrow> 'w \<Rightarrow> (string + 'v smap list \<times> string list) \<times> 'w" where
  "executeSingleQuery K conn sql w =
     (case pgx_query K conn sql w of
        (Inl err, w') \<Rightarrow> (Inl err, w')
      | (Inr rows, w') \<Rightarrow>
          (case collect_rows (column_names rows) (row_values rows) of
             Inl err \<Rightarrow> (Inl err, w')
           | Inr results \<Rightarrow>
               (case rows_err rows of
                  Some err \<Rightarrow> (Inl err, w')
                | None \<Rightarrow> (Inr (results, column_names rows), w'))))"

text \<open>The common body of \<open>QueryRead\<close> and \<open>QueryWrite\<close>: all statements but the last go out as one
  batch, the last one is the query.\<close>

definition run_query ::
    "('w, 'v, 'c) env \<Rightarrow> 'c \<Rightarrow> string \<Rightarrow> 'w \<Rightarrow> (string + 'v smap list \<times> string list) \<times> 'w" where
  "run_query K conn sql w =
     (let statements = splitStatements sql in
      if length statements = 1 then executeSingleQuery K conn (hd statements) w
      else if length statements > 1 then
        (case pgx_batch K conn (butlast statements) w of
           (Some err, w') \<Rightarrow> (Inl (''failed to execute batch commands: '' @ err), w')
         | (None, w') \<Rightarrow> executeSingleQuery K conn (last statements) w')
      else (Inl ''no statements to execute'', w))"

text \<open>A method call on a nil connection is a run-time panic, here an error of this text.\<close>

definition nil_connection :: string where
  "nil_connection = ''runtime error: invalid memory address or nil pointer dereference''"

definition QueryRead ::
    "('w, 'v, 'c) env \<Rightarrow> 'c pg_client \<Rightarrow> string \<Rightarrow> 'w \<Rightarrow> (string + 'v smap list \<times> string list) \<times> 'w" where
  "QueryRead K p sql w =
     (case connRead p of
        Some conn \<Rightarrow> run_query K conn sql w
      | None \<Rightarrow> (if splitStatements sql = [] then (Inl ''no statements to execute'', w) else (Inl nil_connection, w)))"

definition QueryWrite ::
    "('w, 'v, 'c) env \<Rightarrow> 'c pg_client \<Rightarrow> string \<Rightarrow> 'w \<Rightarrow> (string + 'v smap list \<times> string list) \<times> 'w" where
  "QueryWrite K p sql w =
     (case connWrite p of
        Some conn \<Rightarrow> run_query K conn sql w
      | None \<Rightarrow> (if splitStatements sql = [] then (Inl ''no statements to execute'', w) else (Inl nil_connection, w)))"

definition Exec :: "('w, 'v, 'c) env \<Rightarrow> 'c pg_client \<Rightarrow> string \<Rightarrow> 'w \<Rightarrow> string option \<times> 'w" where
  "Exec K p sql w =
     (case connWrite p of
        None \<Rightarrow> (Some ''no database connection'', w)
      | Some conn \<Rightarrow> pgx_exec K conn sql w)"

text \<open>\<open>Close\<close>: the read connection if it is another one, then the write connection; the last error
  is returned.\<close>

definition Close :: "('w, 'v, 'c) env \<Rightarrow> 'c pg_client \<Rightarrow> 'w \<Rightarrow> string option \<times> 'w" where
  "Close K p w =
     (let (e1, w1) =
        (case connRead p of
           Some r \<Rightarrow> if connRead p \<noteq> connWrite p then pgx_close K r w else (None, w)
         | None \<Rightarrow> (None, w))
      in case connWrite p of
           None \<Rightarrow> (e1, w1)
         | Some c \<Rightarrow> (case pgx_close K c w1 of
                       (None, w2) \<Rightarrow> (e1, w2) | (Some e, w2) \<Rightarrow> (Some e, w2)))"

definition postgres_client :: "('w, 'v, 'c) env \<Rightarrow> 'c pg_client \<Rightarrow> ('w, 'v) db_client" where
  "postgres_client K p =
     \<lparr>query_read = QueryRead K p, query_write = QueryWrite K p, db_exec = Exec K p, db_close = Close K p\<rparr>"

section \<open>The mock client\<close>

record 'v mock_client_state =
  mock_rows :: "'v smap list"
  mock_columns :: "string list"
  exec_calls :: "string list"
  fail_query :: bool

definition Mock_Query :: "'v mock_client_state \<Rightarrow> string \<Rightarrow> string + 'v smap list \<times> string list" where
  "Mock_Query m sql =
     (if fail_query m then Inl ''context deadline exceeded'' else Inr (mock_rows m, mock_columns m))"

definition Mock_Exec :: "string \<Rightarrow> 'v mock_client_state \<Rightarrow> string option \<times> 'v mock_client_state" where
  "Mock_Exec sql m = (None, m\<lparr>exec_calls := exec_calls m @ [sql]\<rparr>)"

text \<open>The mock as a client of a world that holds its state.\<close>

definition mock_client :: "('v mock_client_state, 'v) db_client" where
  "mock_client =
     \<lparr>query_read = (\<lambda>sql m. (Mock_Query m sql, m)), query_write = (\<lambda>sql m. (Mock_Query m sql, m)),
      db_exec = Mock_Exec, db_close = (\<lambda>m. (None, m))\<rparr>"

section \<open>Rows\<close>

lemma collect_rows_Inr:
  "collect_rows columns rs = Inr results \<longleftrightarrow>
     (\<forall>r \<in> set rs. \<exists>vs. r = Inr vs) \<and>
     results = map (\<lambda>r. fmap_of_list (rev (zip columns (projr r)))) rs"
proof (induction rs arbitrary: results)
  case (Cons r rs)
  show ?case
  proof (cases r)
    case (Inr vs)
    then show ?thesis
      using Cons.IH [of "map (\<lambda>r. fmap_of_list (rev (zip columns (projr r)))) rs"] Cons.IH
      by (cases "collect_rows columns rs") auto
  qed simp
qed auto

text \<open>A value can be looked up under the name of its column.\<close>

lemma row_lookup:
  assumes "distinct columns" "length values = length columns" "i < length columns"
  shows "fmlookup (fmap_of_list (rev (zip columns values))) (columns ! i) = Some (values ! i)"
  using assms by (subst lookup_fmap_of_list_rev) (auto simp: set_zip)

section \<open>Redaction\<close>

lemma str_index_scheme: "str_index ''://'' (''postgres://'' @ s) = Some 8"
  by simp

text \<open>Without a colon in the password and an at sign after it, the password is replaced as a whole.\<close>

lemma redactPassword_form:
  assumes "CHR '':'' \<notin> set pw" "CHR ''@'' \<notin> set rest"
  shows "redactPassword (''postgres://'' @ u @ '':'' @ pw @ ''@'' @ rest) =
     ''postgres://'' @ u @ '':***@'' @ rest"
proof -
  let ?pre = "''postgres://'' @ u"
  have at: "last_index (CHR ''@'') ((?pre @ '':'' @ pw) @ CHR ''@'' # rest) = Some (length (?pre @ '':'' @ pw))"
    using assms(2) by (rule last_index_Cons_notin)
  have colon: "last_index (CHR '':'') (?pre @ CHR '':'' # pw) = Some (length ?pre)"
    using assms(1) by (rule last_index_Cons_notin)
  have s: "''postgres://'' @ u @ '':'' @ pw @ ''@'' @ rest = (?pre @ '':'' @ pw) @ CHR ''@'' # rest" by simp
  have t: "take (length (?pre @ '':'' @ pw)) ((?pre @ '':'' @ pw) @ CHR ''@'' # rest) = ?pre @ CHR '':'' # pw"
    by simp
  have scheme: "str_index ''://'' ((?pre @ '':'' @ pw) @ CHR ''@'' # rest) = Some 8"
    using str_index_scheme [of "u @ '':'' @ pw @ ''@'' @ rest"] by simp
  show ?thesis
    unfolding s redactPassword_def at option.case t colon scheme by simp
qed

section \<open>Connections\<close>

text \<open>The two connections of a connected client: the write one is to the host, the read one to the read-only
  host if there is one that can be reached, and else the write one.\<close>

definition read_connection :: "('w, 'v, 'c) env \<Rightarrow> db_config \<Rightarrow> 'c \<Rightarrow> 'w \<Rightarrow> 'c" where
  "read_connection K config c w =
     (if config_get config ''readonly_host'' = [] then c
      else (case fst (pgx_connect K (conn_string config (config_get config ''readonly_host'')) w) of
              Inl _ \<Rightarrow> c | Inr r \<Rightarrow> r))"

lemma Connect_Inr:
  assumes "Connect K config w = (Inr p, w1)"
  shows "\<exists>c w'. pgx_connect K (conn_string config (config_get config ''host'')) w = (Inr c, w') \<and>
     p = \<lparr>connWrite = Some c, connRead = Some (read_connection K config c w')\<rparr>"
proof -
  obtain c w' where c: "pgx_connect K (conn_string config (config_get config ''host'')) w = (Inr c, w')"
    using assms by (auto simp: Connect_def Let_def split: prod.splits sum.splits)
  with assms show ?thesis
    by (intro exI [of _ c] exI [of _ w'])
      (auto simp: Connect_def Let_def read_connection_def split: prod.splits sum.splits if_splits)
qed




section \<open>Properties\<close>

text \<open>C29: For a connection string as \<open>Connect\<close> builds it, the logged form does not depend on the password
  at all, as long as the password has no colon and no at sign follows the credentials.\<close>

theorem redactPassword_hides:
  assumes "CHR '':'' \<notin> set pw" "CHR ''@'' \<notin> set rest"
  shows "redactPassword (''postgres://'' @ u @ '':'' @ pw @ ''@'' @ rest) = ''postgres://'' @ u @ '':***@'' @ rest"
  using assms by (rule redactPassword_form)

theorem redactPassword_hides_witness:
  "redactPassword ''postgres://app:s3cret@db:5432/x'' = ''postgres://app:***@db:5432/x''"
  using redactPassword_hides [of "''s3cret''" "''db:5432/x''" "''app''"] by simp

text \<open>C38: Once the driver accepted a query, the result is a success exactly when every row could be read and
  the iteration ended without an error: no rows are returned beside an error. On success there are as many
  rows as the driver delivered, in their order, with the driver's column names; and if these are distinct
  and a row has one value per column, each value is found in the map of the row under the name of its
  column.\<close>

theorem executeSingleQuery_rows:
  assumes "pgx_query K conn q w = (Inr rows, w')"
  shows "((\<exists>results columns. executeSingleQuery K conn q w = (Inr (results, columns), w')) \<longleftrightarrow>
      rows_err rows = None \<and> (\<forall>r \<in> set (row_values rows). \<not> isl r)) \<and>
    (\<forall>results columns w''. executeSingleQuery K conn q w = (Inr (results, columns), w'') \<longrightarrow>
       w'' = w' \<and> columns = column_names rows \<and> length results = length (row_values rows) \<and>
       (distinct columns \<longrightarrow> (\<forall>i < length results. \<forall>j < length columns. \<forall>vs.
          row_values rows ! i = Inr vs \<longrightarrow> length vs = length columns \<longrightarrow>
          fmlookup (results ! i) (columns ! j) = Some (vs ! j))))"
proof (intro conjI allI impI)
  let ?rs = "row_values rows" and ?cs = "column_names rows"
  have "(\<forall>r \<in> set ?rs. \<not> isl r) \<longleftrightarrow> (\<exists>results. collect_rows ?cs ?rs = Inr results)"
    unfolding collect_rows_Inr by (auto simp: isl_def split: sum.splits) (metis sum.exhaust)
  then show "(\<exists>results columns. executeSingleQuery K conn q w = (Inr (results, columns), w')) \<longleftrightarrow>
      rows_err rows = None \<and> (\<forall>r \<in> set ?rs. \<not> isl r)"
    using assms by (auto simp: executeSingleQuery_def split: sum.splits option.splits)
  fix results columns w''
  assume "executeSingleQuery K conn q w = (Inr (results, columns), w'')"
  then have c: "collect_rows ?cs ?rs = Inr results" and "columns = ?cs" "w'' = w'"
    using assms by (auto simp: executeSingleQuery_def split: sum.splits option.splits)
  then show "w'' = w'" "columns = ?cs" by simp_all
  have r: "results = map (\<lambda>r. fmap_of_list (rev (zip ?cs (projr r)))) ?rs"
    using c collect_rows_Inr by metis
  then show "length results = length ?rs" by simp
  fix i j vs
  assume "distinct columns" "i < length results" "j < length columns" "?rs ! i = Inr vs" "length vs = length columns"
  with r \<open>columns = ?cs\<close> show "fmlookup (results ! i) (columns ! j) = Some (vs ! j)"
    by (simp add: row_lookup)
qed

theorem executeSingleQuery_rows_witness:
  "\<exists>results columns. executeSingleQuery sim_env 0 ''q'' sim_world = (Inr (results, columns), sim_world) \<and>
     fmlookup (results ! 0) (columns ! 0) = Some ''a''"
proof -
  let ?rows = "\<lparr>column_names = [''name''], row_values = [Inr [''a'']], rows_err = None\<rparr>"
  have "pgx_query sim_env 0 ''q'' sim_world = (Inr ?rows, sim_world)" by (simp add: sim_env_def)
  note e = executeSingleQuery_rows [OF this]
  then obtain results columns where x: "executeSingleQuery sim_env 0 ''q'' sim_world = (Inr (results, columns), sim_world)"
    by auto
  with e have "columns = [''name'']" "length results = 1" by auto
  with x e show ?thesis by fastforce
qed

text \<open>C28: After \<open>Connect\<close> succeeded, \<open>QueryWrite\<close> and \<open>Exec\<close> use the connection made to the host, and
  \<open>QueryRead\<close> uses the one made to the read-only host, if the configuration has one that can be connected
  to, and the connection of the host otherwise. On either connection a query that the splitter leaves as
  one statement goes to the driver as that statement, with no batch before it.\<close>

theorem QueryRead_connection:
  assumes "Connect K config w = (Inr p, w1)"
  shows "\<exists>c r w'. pgx_connect K (conn_string config (config_get config ''host'')) w = (Inr c, w') \<and>
    r = (if config_get config ''readonly_host'' = [] then c
         else (case fst (pgx_connect K (conn_string config (config_get config ''readonly_host'')) w') of
                 Inl _ \<Rightarrow> c | Inr x \<Rightarrow> x)) \<and>
    (\<forall>q w2. QueryRead K p q w2 = run_query K r q w2 \<and> QueryWrite K p q w2 = run_query K c q w2 \<and>
       Exec K p q w2 = pgx_exec K c q w2) \<and>
    (\<forall>q stmt x w2. splitStatements q = [stmt] \<longrightarrow> run_query K x q w2 = executeSingleQuery K x stmt w2)"
proof -
  obtain c w' where c: "pgx_connect K (conn_string config (config_get config ''host'')) w = (Inr c, w')"
    "p = \<lparr>connWrite = Some c, connRead = Some (read_connection K config c w')\<rparr>"
    using Connect_Inr [OF assms] by blast
  then show ?thesis
    by (intro exI [of _ c] exI [of _ "read_connection K config c w'"] exI [of _ w'])
      (auto simp: read_connection_def QueryRead_def QueryWrite_def Exec_def run_query_def)
qed

text \<open>A replica with a longer name, in the simulated driver whose connections are the lengths of their
  connection strings.\<close>

definition replica_config :: db_config where
  "replica_config = fmupd ''host'' ''db'' (fmupd ''readonly_host'' ''replica'' fmempty)"

theorem QueryRead_connection_witness:
  "\<exists>p c. Connect sim_env replica_config sim_world = (Inr p, sim_world) \<and>
     QueryRead sim_env p ''SELECT 1'' sim_world = executeSingleQuery sim_env (c + 5) ''SELECT 1'' sim_world \<and>
     QueryWrite sim_env p ''SELECT 1'' sim_world = executeSingleQuery sim_env c ''SELECT 1'' sim_world"
proof -
  have g: "config_get replica_config ''readonly_host'' = ''replica''" "config_get replica_config ''host'' = ''db''"
    by (simp_all add: config_get_def replica_config_def)
  have k: "pgx_connect sim_env t u = (Inr (length t), u)" for t u by (simp add: sim_env_def)
  have l: "length (conn_string replica_config ''replica'') = length (conn_string replica_config ''db'') + 5"
    by (simp add: conn_string_def)
  obtain p where p: "Connect sim_env replica_config sim_world = (Inr p, sim_world)"
    by (simp add: Connect_def Let_def k g)
  have "splitStatements ''SELECT 1'' = [''SELECT 1'']" by code_simp
  with QueryRead_connection [OF p] p show ?thesis by (auto simp: k g l)
qed




end
