(* ===== verification/Pg_Identifiers.thy ===== *)
theory Pg_Identifiers
  imports Go_Strings
begin

text \<open>
  Quoting of SQL identifiers in \<open>internal/controller/databasequeryresource_controller.go\<close>:
  \<open>validPGUnquotedID\<close>, \<open>quotePGIdentifier\<close> and \<open>sanitizePGIdentifier\<close>. The texts of the errors are
  not modelled, the error branches are. \<open>lex_chain\<close> is how PostgreSQL reads a chain of delimited
  identifiers and is what the quoting is measured against.
\<close>

datatype ident_error =
    EmptyIdentifier
  | EmptyPart
  | EmptyQuotedPart
  | NullByteInQuotedPart
  | InvalidPart string
  | QuoteEmptyPart
  | QuoteNullByte

abbreviation dquote :: char where "dquote \<equiv> CHR 0x22"

definition is_ident_start :: "char \<Rightarrow> bool" where
  "is_ident_start c \<longleftrightarrow> (CHR ''a'' \<le> c \<and> c \<le> CHR ''z'') \<or> (CHR ''A'' \<le> c \<and> c \<le> CHR ''Z'') \<or> c = CHR ''_''"

definition is_ident_char :: "char \<Rightarrow> bool" where
  "is_ident_char c \<longleftrightarrow> is_ident_start c \<or> (CHR ''0'' \<le> c \<and> c \<le> CHR ''9'') \<or> c = CHR ''$''"

text \<open>The regular expression \<open>^[a-zA-Z_][a-zA-Z0-9_$]*$\<close>.\<close>

definition validPGUnquotedID :: "string \<Rightarrow> bool" where
  "validPGUnquotedID s = (case s of [] \<Rightarrow> False | c # cs \<Rightarrow> is_ident_start c \<and> list_all is_ident_char cs)"

definition quotePGIdentifier :: "string \<Rightarrow> ident_error + string" where
  "quotePGIdentifier part =
     (if part = [] then Inl QuoteEmptyPart
      else if CHR 0x00 \<in> set part then Inl QuoteNullByte
      else Inr (dquote # replace_all dquote [dquote, dquote] part @ [dquote]))"

text \<open>The body of the loop of \<open>sanitizePGIdentifier\<close> for one part.\<close>

definition sanitize_part :: "string \<Rightarrow> ident_error + string" where
  "sanitize_part part =
     (if part = [] then Inl EmptyPart
      else if prefix [dquote] part \<and> suffix [dquote] part \<and> length part \<ge> 2 then
        (let inner = drop 1 (take (length part - 1) part) in
         if inner = [] then Inl EmptyQuotedPart
         else if CHR 0x00 \<in> set inner then Inl NullByteInQuotedPart
         else Inr part)
      else if \<not> validPGUnquotedID part then Inl (InvalidPart part)
      else quotePGIdentifier part)"

fun sanitize_parts :: "string list \<Rightarrow> ident_error + string list" where
  "sanitize_parts [] = Inr []"
| "sanitize_parts (p # ps) =
     (case sanitize_part p of
        Inl e \<Rightarrow> Inl e
      | Inr q \<Rightarrow> (case sanitize_parts ps of Inl e \<Rightarrow> Inl e | Inr qs \<Rightarrow> Inr (q # qs)))"

definition sanitizePGIdentifier :: "string \<Rightarrow> ident_error + string" where
  "sanitizePGIdentifier identifier =
     (if identifier = [] then Inl EmptyIdentifier
      else (case sanitize_parts (split_on (CHR ''.'') identifier) of
              Inl e \<Rightarrow> Inl e
            | Inr result \<Rightarrow> Inr (join ''.'' result)))"

section \<open>How PostgreSQL reads delimited identifiers\<close>

text \<open>
  After the opening quote: a doubled quote stands for a quote, a single one ends the identifier.
  The result is the identifier and the text after the closing quote.
\<close>

fun lex_quoted :: "string \<Rightarrow> (string \<times> string) option" where
  "lex_quoted [] = None"
| "lex_quoted (c # cs) =
     (if c = dquote then
        (case cs of
           d # ds \<Rightarrow>
             (if d = dquote then map_option (apfst (Cons dquote)) (lex_quoted ds)
              else Some ([], cs))
         | [] \<Rightarrow> Some ([], []))
      else map_option (apfst (Cons c)) (lex_quoted cs))"

lemma lex_quoted_shorter: "lex_quoted s = Some (i, r) \<Longrightarrow> length r < length s"
proof (induction s arbitrary: i r rule: lex_quoted.induct)
  case 1
  then show ?case by simp
next
  case (2 c cs)
  then show ?case
    by (cases cs) (auto split: if_splits simp: less_Suc_eq apfst_def map_prod_def)
qed

text \<open>A chain of delimited identifiers separated by dots, and the text after it.\<close>

function lex_chain :: "string \<Rightarrow> string list \<times> string" where
  "lex_chain s =
     (case s of
        c # cs \<Rightarrow>
          (if c = dquote then
             (case lex_quoted cs of
                None \<Rightarrow> ([], s)
              | Some (i, r) \<Rightarrow>
                  (case r of
                     d # ds \<Rightarrow>
                       (if d = CHR ''.'' then apfst (Cons i) (lex_chain ds) else ([i], r))
                   | [] \<Rightarrow> ([i], [])))
           else ([], s))
      | [] \<Rightarrow> ([], []))"
  by pat_completeness auto
termination
  by (relation "measure length") (auto dest: lex_quoted_shorter)

declare lex_chain.simps [simp del]

section \<open>Unquoted identifiers\<close>

lemma is_ident_char_facts:
  "is_ident_char c \<Longrightarrow> c \<noteq> dquote \<and> c \<noteq> CHR 0x00 \<and> c \<noteq> CHR ''.''"
  by (auto simp: is_ident_char_def is_ident_start_def less_eq_char_def)

lemma validPGUnquotedID_chars:
  "validPGUnquotedID s \<Longrightarrow> s \<noteq> [] \<and> (\<forall>c \<in> set s. is_ident_char c)"
  by (auto simp: validPGUnquotedID_def list_all_iff is_ident_char_def split: list.splits)

lemma replace_all_id: "c \<notin> set s \<Longrightarrow> replace_all c r s = s"
  by (induction s) (auto simp: replace_all_def)

lemma sanitize_part_unquoted:
  assumes "validPGUnquotedID p"
  shows "sanitize_part p = Inr (dquote # p @ [dquote])"
proof -
  have "p \<noteq> []" "dquote \<notin> set p" "CHR 0x00 \<notin> set p"
    using validPGUnquotedID_chars [OF assms] is_ident_char_facts by blast+
  then show ?thesis
    using assms by (cases p) (auto simp: sanitize_part_def quotePGIdentifier_def replace_all_id)
qed

lemma sanitize_parts_unquoted:
  "\<forall>p \<in> set ps. validPGUnquotedID p \<Longrightarrow>
   sanitize_parts ps = Inr (map (\<lambda>p. dquote # p @ [dquote]) ps)"
  by (induction ps) (simp_all add: sanitize_part_unquoted)

lemma validPGUnquotedID_no_dot: "validPGUnquotedID p \<Longrightarrow> CHR ''.'' \<notin> set p"
  using validPGUnquotedID_chars is_ident_char_facts by blast

lemma lex_quoted_plain:
  "dquote \<notin> set p \<Longrightarrow> \<not> prefix [dquote] r \<Longrightarrow> lex_quoted (p @ dquote # r) = Some (p, r)"
  by (induction p) (auto split: list.splits)

lemma lex_chain_plain:
  "ps \<noteq> [] \<Longrightarrow> \<forall>p \<in> set ps. dquote \<notin> set p \<Longrightarrow> \<not> prefix [dquote] r \<Longrightarrow> \<not> prefix ''.'' r \<Longrightarrow>
   lex_chain (join ''.'' (map (\<lambda>p. dquote # p @ [dquote]) ps) @ r) = (ps, r)"
proof (induction ps)
  case Nil
  then show ?case by simp
next
  case (Cons p ps)
  show ?case
  proof (cases ps)
    case Nil
    with Cons.prems show ?thesis
      by (cases r) (simp_all add: lex_chain.simps [of "dquote # _"] lex_quoted_plain)
  next
    case (Cons q qs)
    then have "join ''.'' (map (\<lambda>p. dquote # p @ [dquote]) (p # ps)) @ r =
        dquote # p @ dquote # CHR ''.'' # join ''.'' (map (\<lambda>p. dquote # p @ [dquote]) ps) @ r"
      by simp
    with Cons.IH Cons.prems Cons show ?thesis
      by (simp add: lex_chain.simps [of "dquote # _"] lex_quoted_plain del: list.map)
  qed
qed

section \<open>Which parts are accepted\<close>

definition accepted_part :: "string \<Rightarrow> bool" where
  "accepted_part p \<longleftrightarrow> validPGUnquotedID p \<or>
     (\<exists>inner. p = dquote # inner @ [dquote] \<and> inner \<noteq> [] \<and> CHR 0x00 \<notin> set inner)"

definition quoted_part :: "string \<Rightarrow> string" where
  "quoted_part p = (if prefix [dquote] p then p else dquote # p @ [dquote])"

lemma already_quoted:
  "prefix [dquote] p \<and> suffix [dquote] p \<and> length p \<ge> 2 \<longleftrightarrow> (\<exists>inner. p = dquote # inner @ [dquote])"
proof
  assume *: "prefix [dquote] p \<and> suffix [dquote] p \<and> length p \<ge> 2"
  then obtain t u where t: "p = dquote # t" and u: "p = u @ [dquote]"
    unfolding prefix_def suffix_def by (metis append_Cons append_Nil)
  with * have "t \<noteq> []" by auto
  with t u have "t = butlast t @ [dquote]"
    by (metis append_butlast_last_id last.simps last_snoc)
  with t show "\<exists>inner. p = dquote # inner @ [dquote]" by blast
qed (auto simp: suffix_def)

lemma unquoted_not_prefix: "validPGUnquotedID p \<Longrightarrow> \<not> prefix [dquote] p"
  using validPGUnquotedID_chars is_ident_char_facts by (cases p) fastforce+

lemma sanitize_part_Inr: "sanitize_part p = Inr q \<longleftrightarrow> accepted_part p \<and> q = quoted_part p"
proof (cases "\<exists>inner. p = dquote # inner @ [dquote]")
  case True
  then obtain inner where p: "p = dquote # inner @ [dquote]" by blast
  have "\<not> validPGUnquotedID p" using unquoted_not_prefix [of p] p by auto
  moreover have "prefix [dquote] p \<and> suffix [dquote] p \<and> length p \<ge> 2"
    using already_quoted p by blast
  ultimately show ?thesis
    using p by (auto simp: sanitize_part_def accepted_part_def quoted_part_def Let_def)
next
  case False
  then have *: "\<not> (prefix [dquote] p \<and> suffix [dquote] p \<and> length p \<ge> 2)"
    using already_quoted by blast
  show ?thesis
  proof (cases "validPGUnquotedID p")
    case True
    then show ?thesis
      using sanitize_part_unquoted [OF True] unquoted_not_prefix [OF True]
      by (auto simp: accepted_part_def quoted_part_def)
  next
    case invalid: False
    then have "\<not> accepted_part p" using False by (simp add: accepted_part_def)
    moreover have "sanitize_part p = Inl EmptyPart \<or> sanitize_part p = Inl (InvalidPart p)"
      using * invalid unfolding sanitize_part_def by auto
    ultimately show ?thesis by auto
  qed
qed

lemma sanitize_parts_Inr:
  "sanitize_parts ps = Inr qs \<longleftrightarrow> (\<forall>p \<in> set ps. accepted_part p) \<and> qs = map quoted_part ps"
proof (induction ps arbitrary: qs)
  case Nil
  then show ?case by auto
next
  case (Cons p ps)
  show ?case
  proof (cases "sanitize_part p")
    case (Inl e)
    then have "\<not> accepted_part p" using sanitize_part_Inr [of p "quoted_part p"] by auto
    with Inl show ?thesis by simp
  next
    case (Inr q)
    then have "accepted_part p" "q = quoted_part p" using sanitize_part_Inr by auto
    with Inr Cons.IH show ?thesis by (cases "sanitize_parts ps") auto
  qed
qed

section \<open>What a quoted part can hold\<close>

text \<open>The quotes inside a part that starts and ends with one are not looked at.\<close>

lemma sanitizePGIdentifier_quotes_inside:
  assumes "a \<noteq> []" "CHR ''.'' \<notin> set (a @ b)" "CHR 0x00 \<notin> set (a @ b)"
  shows "sanitizePGIdentifier (dquote # a @ dquote # b @ [dquote]) = Inr (dquote # a @ dquote # b @ [dquote])"
proof -
  let ?s = "dquote # a @ dquote # b @ [dquote]"
  have split: "split_on (CHR ''.'') ?s = [?s]"
    using split_on_join [of "[?s]" "CHR ''.''"] assms(2) by simp
  have "accepted_part ?s"
    unfolding accepted_part_def using assms(3)
    by (intro disjI2 exI [of _ "a @ dquote # b"]) simp
  then have "sanitize_parts [?s] = Inr [?s]" by (simp add: sanitize_parts_Inr quoted_part_def del: sanitize_parts.simps)
  then show ?thesis unfolding sanitizePGIdentifier_def split by simp
qed

lemma lex_chain_quotes_inside:
  assumes "dquote \<notin> set a" "b \<noteq> []" "\<not> prefix [dquote] b" "\<not> prefix ''.'' b"
  shows "lex_chain (dquote # a @ dquote # b @ r) = ([a], b @ r)"
proof -
  obtain c cs where b: "b = c # cs" using assms(2) by (cases b) auto
  have "lex_quoted (a @ dquote # b @ r) = Some (a, b @ r)"
    using assms by (intro lex_quoted_plain) (simp_all add: b)
  with assms(3,4) show ?thesis by (simp add: lex_chain.simps [of "dquote # _"] b)
qed

section \<open>Properties\<close>

text \<open>C25: An identifier is accepted exactly when every part between dots is a plain identifier or a
  non-empty text in double quotes without a zero byte, and then every part is returned quoted.\<close>

theorem sanitizePGIdentifier_spec:
  "sanitizePGIdentifier s = Inr q \<longleftrightarrow>
     s \<noteq> [] \<and> list_all accepted_part (split_on (CHR ''.'') s) \<and>
     q = join ''.'' (map quoted_part (split_on (CHR ''.'') s))"
proof (cases "sanitize_parts (split_on (CHR ''.'') s)")
  case (Inl e)
  then have "\<not> list_all accepted_part (split_on (CHR ''.'') s)"
    using sanitize_parts_Inr [of "split_on (CHR ''.'') s"] by (auto simp: list_all_iff)
  with Inl show ?thesis by (simp add: sanitizePGIdentifier_def)
next
  case (Inr qs)
  then have "list_all accepted_part (split_on (CHR ''.'') s)" "qs = map quoted_part (split_on (CHR ''.'') s)"
    using sanitize_parts_Inr [of "split_on (CHR ''.'') s" qs] by (auto simp: list_all_iff)
  with Inr show ?thesis by (auto simp: sanitizePGIdentifier_def)
qed

text \<open>C26: For plain (unquoted) identifiers the result is safe in a query: PostgreSQL reads it, before any
  text that does not continue it, as exactly the chain of the given names and nothing more.\<close>

theorem sanitizePGIdentifier_lexes:
  assumes "ps \<noteq> []" "list_all validPGUnquotedID ps" "\<not> prefix [dquote] r" "\<not> prefix ''.'' r"
  shows "\<exists>q. sanitizePGIdentifier (join ''.'' ps) = Inr q \<and> lex_chain (q @ r) = (ps, r)"
proof -
  have ids: "\<forall>p \<in> set ps. validPGUnquotedID p" using assms(2) by (simp add: list_all_iff)
  have split: "split_on (CHR ''.'') (join ''.'' ps) = ps"
    using assms(1) ids validPGUnquotedID_no_dot by (intro split_on_join) auto
  then have "join ''.'' ps \<noteq> []"
    using ids assms(1) by (cases ps) (auto simp: validPGUnquotedID_def)
  then have "sanitizePGIdentifier (join ''.'' ps) = Inr (join ''.'' (map (\<lambda>p. dquote # p @ [dquote]) ps))"
    using split sanitize_parts_unquoted [OF ids] by (simp add: sanitizePGIdentifier_def)
  moreover have "\<forall>p \<in> set ps. dquote \<notin> set p"
    using ids validPGUnquotedID_chars is_ident_char_facts by blast
  ultimately show ?thesis using lex_chain_plain assms by blast
qed

theorem sanitizePGIdentifier_lexes_witness:
  "\<exists>q. sanitizePGIdentifier ''public.users'' = Inr q \<and>
     lex_chain (q @ '' WHERE x'') = ([''public'', ''users''], '' WHERE x'')"
proof -
  have "list_all validPGUnquotedID [''public'', ''users'']" by code_simp
  moreover have "join ''.'' [''public'', ''users''] = ''public.users''" by simp
  ultimately show ?thesis
    using sanitizePGIdentifier_lexes [of "[''public'', ''users'']" "'' WHERE x''"] by simp
qed

end
