(* ===== verification/Schedule.thy ===== *)
theory Schedule
  imports Postgres Pg_Identifiers
begin

text \<open>
  When the next pass runs and whether it is a full one: \<open>changePollIntervalFor\<close>,
  \<open>nextRequeueInterval\<close>, \<open>shouldReconcile\<close> and \<open>detectChanges\<close>, and \<open>getOrCreateDBClient\<close> that
  \<open>detectChanges\<close> and the full pass share. Durations are int64 counts of nanoseconds.
\<close>

section \<open>Database clients\<close>

definition getOrCreateDBClient ::
    "('w, 'v, 'c) env \<Rightarrow> dbqr \<Rightarrow> db_config \<Rightarrow> 'w \<Rightarrow> (string + ('w, 'v) db_client) \<times> 'w" where
  "getOrCreateDBClient K d config w =
     (let type = db_type (database (spec d)) in
      case client_factory K of
        Some factory \<Rightarrow> factory type config w
      | None \<Rightarrow>
          (if to_lower type \<in> {''postgres'', ''postgresql'', ''pgx'', ''''} then
             (case Connect K config w of
                (Inl err, w') \<Rightarrow> (Inl err, w')
              | (Inr p, w') \<Rightarrow> (Inr (postgres_client K p), w'))
           else (Inl (''unsupported database type: '' @ type), w)))"

definition open_client :: "('w, 'v, 'c) env \<Rightarrow> dbqr \<Rightarrow> db_config \<Rightarrow> ('w, string + ('w, 'v) db_client) prog" where
  "open_client K d config =
     call (getOrCreateDBClient K d config) (\<lambda>r. Connected (db_type (database (spec d))) (failure r = None))"

definition client_read ::
    "('w, 'v) db_client \<Rightarrow> string \<Rightarrow> ('w, string + 'v smap list \<times> string list) prog" where
  "client_read c sql = call (query_read c sql) (\<lambda>r. Read_Query sql (failure r = None))"

definition client_exec :: "('w, 'v) db_client \<Rightarrow> string \<Rightarrow> ('w, string option) prog" where
  "client_exec c sql = call (db_exec c sql) (\<lambda>r. Executed sql (r = None))"

definition client_close :: "('w, 'v) db_client \<Rightarrow> ('w, string option) prog" where
  "client_close c = call (db_close c) (\<lambda>_. Closed)"

section \<open>Intervals\<close>

definition default_change_interval :: duration where
  "default_change_interval = 10 * second"

definition change_interval :: "change_detection \<Rightarrow> duration" where
  "change_interval cd =
     (if changePollInterval cd \<noteq> [] then
        (case ParseDuration (changePollInterval cd) of
           Inr parsed \<Rightarrow> parsed
         | Inl _ \<Rightarrow> default_change_interval)
      else default_change_interval)"

definition changePollIntervalFor :: "dbqr_spec \<Rightarrow> duration" where
  "changePollIntervalFor sp =
     (case changeDetection sp of
        None \<Rightarrow> 0
      | Some cd \<Rightarrow> if \<not> cd_enabled cd then 0 else change_interval cd)"

definition nextRequeueInterval :: "dbqr \<Rightarrow> duration \<Rightarrow> duration" where
  "nextRequeueInterval d poll =
     (let changeInterval = changePollIntervalFor (spec d) in
      if changeInterval > 0 \<and> changeInterval < poll then changeInterval else poll)"

section \<open>Change detection\<close>

datatype detect_error =
    Config_Failed string
  | Connect_Failed string
  | Bad_Table ident_error
  | Bad_Column ident_error
  | Query_Failed string

definition unix_epoch :: go_time where
  "unix_epoch = GoTime 0 None"

definition detection_query :: "string \<Rightarrow> string \<Rightarrow> string \<Rightarrow> string" where
  "detection_query table column time =
     ''SELECT 1 FROM '' @ table @ '' WHERE '' @ column @ '' > '' @ [CHR 0x27] @ time @ [CHR 0x27] @ '' LIMIT 1''"

text \<open>The part of \<open>detectChanges\<close> after the connection, without the deferred \<open>Close\<close>.\<close>

definition run_detection ::
    "('w, 'v, 'c) env \<Rightarrow> dbqr \<Rightarrow> change_detection \<Rightarrow> ('w, 'v) db_client \<Rightarrow> ('w, detect_error + bool) prog" where
  "run_detection K d cd db =
     (let lastCheckTime = (case lastChangeCheckTime (status d) of Some t \<Rightarrow> t | None \<Rightarrow> unix_epoch) in
      case sanitizePGIdentifier (tableName cd) of
        Inl e \<Rightarrow> State_Monad.return (Inl (Bad_Table e))
      | Inr safeTableName \<Rightarrow>
          (case sanitizePGIdentifier (timestampColumn cd) of
             Inl e \<Rightarrow> State_Monad.return (Inl (Bad_Column e))
           | Inr safeTimestampColumn \<Rightarrow> do {
               r \<leftarrow> client_read db (detection_query safeTableName safeTimestampColumn
                     (format_rfc3339_nano (local_offset K) lastCheckTime));
               State_Monad.return (case r of
                 Inl e \<Rightarrow> Inl (Query_Failed e)
               | Inr (rows, _) \<Rightarrow> Inr (length rows > 0))
             }))"

definition detectChanges ::
    "('w, 'v, 'c) env \<Rightarrow> dbqr \<Rightarrow> change_detection \<Rightarrow> ('w, detect_error + bool) prog" where
  "detectChanges K d cd = do {
     config \<leftarrow> getDBConfig K d;
     case config of
       Inl e \<Rightarrow> State_Monad.return (Inl (Config_Failed e))
     | Inr dbConfig \<Rightarrow> do {
         client \<leftarrow> open_client K d dbConfig;
         case client of
           Inl e \<Rightarrow> State_Monad.return (Inl (Connect_Failed e))
         | Inr db \<Rightarrow> do {
             r \<leftarrow> run_detection K d cd db;
             _ \<leftarrow> client_close db;
             State_Monad.return r
           }
       }
   }"

section \<open>The decision\<close>

text \<open>The part of \<open>shouldReconcile\<close> that runs the detection query.\<close>

definition check_for_changes ::
    "('w, 'v, 'c) env \<Rightarrow> change_detection \<Rightarrow> duration \<Rightarrow> duration \<Rightarrow> ('w, bool \<times> duration) prog" where
  "check_for_changes K cd poll changePoll = do {
     d \<leftarrow> read_cr;
     changes \<leftarrow> detectChanges K d cd;
     case changes of
       Inl _ \<Rightarrow> State_Monad.return (True, poll)
     | Inr hasChanges \<Rightarrow> do {
         t \<leftarrow> now K;
         _ \<leftarrow> write_cr (\<lambda>d. d\<lparr>status := (status d)\<lparr>lastChangeCheckTime := Some t\<rparr>\<rparr>);
         _ \<leftarrow> do_update_status K;
         State_Monad.return (if hasChanges then (True, poll) else (False, changePoll))
       }
   }"

definition shouldReconcile :: "('w, 'v, 'c) env \<Rightarrow> duration \<Rightarrow> ('w, bool \<times> duration) prog" where
  "shouldReconcile K poll = do {
     d \<leftarrow> read_cr;
     if observedGeneration (status d) < d_generation d then State_Monad.return (True, poll)
     else (case changeDetection (spec d) of
       None \<Rightarrow> State_Monad.return (True, poll)
     | Some cd \<Rightarrow>
         if \<not> cd_enabled cd then State_Monad.return (True, poll)
         else do {
           t \<leftarrow> now K;
           (case lastPollTime (status d) of
              None \<Rightarrow> State_Monad.return (True, poll)
            | Some lastPoll \<Rightarrow>
                if time_sub t lastPoll \<ge> poll then State_Monad.return (True, poll)
                else (case lastChangeCheckTime (status d) of
                  None \<Rightarrow> check_for_changes K cd poll (change_interval cd)
                | Some lastCheck \<Rightarrow>
                    if time_sub t lastCheck < change_interval cd then
                      State_Monad.return (False, wrap64 (change_interval cd - time_sub t lastCheck))
                    else check_for_changes K cd poll (change_interval cd)))
         })
   }"

section \<open>Bounds\<close>

lemma change_interval_int64: "int64 (change_interval cd)"
  by (auto simp: change_interval_def default_change_interval_def second_def int64_def
      min_duration_def max_duration_def split: sum.splits dest!: ParseDuration_int64)

lemma nextRequeueInterval_cases:
  "nextRequeueInterval d poll = poll \<or>
   (0 < nextRequeueInterval d poll \<and> nextRequeueInterval d poll < poll \<and>
    nextRequeueInterval d poll = changePollIntervalFor (spec d))"
  by (simp add: nextRequeueInterval_def Let_def)

lemma changePollIntervalFor_pos:
  "changePollIntervalFor sp > 0 \<Longrightarrow> \<exists>cd. changeDetection sp = Some cd \<and> cd_enabled cd"
  by (auto simp: changePollIntervalFor_def split: option.splits if_splits)

section \<open>Calls\<close>

lemma emits_open_client [emits_intros]:
  "(\<And>t b. A (Connected t b)) \<Longrightarrow> emits A (open_client K d config)"
  by (simp add: open_client_def emits_call)

lemma emits_client_read [emits_intros]: "(\<And>b. A (Read_Query q b)) \<Longrightarrow> emits A (client_read c q)"
  by (simp add: client_read_def emits_call)

lemma emits_client_exec [emits_intros]: "(\<And>b. A (Executed q b)) \<Longrightarrow> emits A (client_exec c q)"
  by (simp add: client_exec_def emits_call)

lemma emits_client_close [emits_intros]: "A Closed \<Longrightarrow> emits A (client_close c)"
  by (simp add: client_close_def emits_call)

text \<open>An event of change detection: reading the secret and the database, reading the clock and
  writing the status of the resource.\<close>

definition detection_event :: "event \<Rightarrow> bool" where
  "detection_event e =
     (case e of
        Got_Secret _ _ \<Rightarrow> True | Connected _ _ \<Rightarrow> True | Read_Query _ _ \<Rightarrow> True | Closed \<Rightarrow> True
      | Clock_Read _ \<Rightarrow> True | Updated_Status _ _ \<Rightarrow> True | _ \<Rightarrow> False)"

lemma emits_detectChanges: "emits detection_event (detectChanges K d cd)"
  unfolding detectChanges_def run_detection_def
  by (intro emits_intros) (simp_all add: detection_event_def)

lemma emits_shouldReconcile: "emits detection_event (shouldReconcile K poll)"
  unfolding shouldReconcile_def check_for_changes_def
  by (intro emits_intros emits_detectChanges) (simp_all add: detection_event_def)

text \<open>Detection leaves the resource alone but for the answer of its status update.\<close>

lemma getDBConfig_cr [simp]: "cr (run_after (getDBConfig K d) s) = cr s"
  by (simp add: getDBConfig_def Let_def)

lemma client_calls_cr [simp]:
  "cr (run_after (open_client K d config) s) = cr s"
  "cr (run_after (client_read c q) s) = cr s"
  "cr (run_after (client_exec c q) s) = cr s"
  "cr (run_after (client_close c) s) = cr s"
  "cr (run_after (now K) s) = cr s"
  "cr (run_after (do_get K g ns n) s) = cr s"
  "cr (run_after (do_update K u) s) = cr s"
  "cr (run_after (do_apply K u) s) = cr s"
  "cr (run_after (do_delete K u) s) = cr s"
  by (simp_all add: open_client_def client_read_def client_exec_def client_close_def now_def do_get_def
      do_update_def do_apply_def do_delete_def)

lemma run_detection_cr [simp]: "cr (run_after (run_detection K d cd db) s) = cr s"
  by (simp add: run_detection_def Let_def split: sum.split)

lemma detectChanges_cr [simp]: "cr (run_after (detectChanges K d cd) s) = cr s"
  by (simp add: detectChanges_def split: sum.split)

section \<open>What the decision says\<close>

lemma shouldReconcile_decision:
  assumes "run_result (shouldReconcile K poll) s = (full, next)"
  shows "(full \<longrightarrow> next = poll) \<and>
    (\<not> full \<longrightarrow> d_generation (cr s) \<le> observedGeneration (status (cr s)) \<and>
      (\<exists>cd lastPoll. changeDetection (spec (cr s)) = Some cd \<and> cd_enabled cd \<and>
         lastPollTime (status (cr s)) = Some lastPoll \<and>
         time_sub (fst (clock K (world s))) lastPoll < poll))"
proof -
  have c: "run_result (check_for_changes K cd poll i) s1 = (full', next') \<Longrightarrow> full' \<longrightarrow> next' = poll" for cd i s1 full' next'
    by (auto simp: check_for_changes_def split: sum.splits if_splits)
  show ?thesis
    using assms c by (auto simp: shouldReconcile_def now_def split: if_splits option.splits)
qed

lemma shouldReconcile_wait_cases:
  assumes "run_result (shouldReconcile K poll) s = (False, next)"
  shows "\<exists>cd. changeDetection (spec (cr s)) = Some cd \<and> cd_enabled cd \<and>
    (next = change_interval cd \<or>
     (\<exists>t. lastChangeCheckTime (status (cr s)) = Some t \<and> time_sub (fst (clock K (world s))) t < change_interval cd \<and>
        next = wrap64 (change_interval cd - time_sub (fst (clock K (world s))) t)))"
proof -
  have c: "run_result (check_for_changes K cd poll i) s1 = (False, next') \<Longrightarrow> next' = i" for cd i s1 next'
    by (auto simp: check_for_changes_def split: sum.splits if_splits)
  show ?thesis
    using assms c by (auto simp: shouldReconcile_def now_def split: if_splits option.splits)
qed

lemma shouldReconcile_wait_bounds:
  assumes "run_result (shouldReconcile K poll) s = (False, next)"
  shows "\<exists>cd. changeDetection (spec (cr s)) = Some cd \<and> cd_enabled cd \<and> int64 next \<and>
    ((\<forall>t. lastChangeCheckTime (status (cr s)) = Some t \<longrightarrow> 0 \<le> time_sub (fst (clock K (world s))) t) \<longrightarrow>
       next \<le> change_interval cd \<and> (0 < next \<longleftrightarrow> 0 < change_interval cd))"
proof -
  obtain cd where cd: "changeDetection (spec (cr s)) = Some cd" "cd_enabled cd"
    and "next = change_interval cd \<or>
     (\<exists>t. lastChangeCheckTime (status (cr s)) = Some t \<and> time_sub (fst (clock K (world s))) t < change_interval cd \<and>
        next = wrap64 (change_interval cd - time_sub (fst (clock K (world s))) t))"
    using shouldReconcile_wait_cases [OF assms] by blast
  then have "int64 next \<and>
    ((\<forall>t. lastChangeCheckTime (status (cr s)) = Some t \<longrightarrow> 0 \<le> time_sub (fst (clock K (world s))) t) \<longrightarrow>
       next \<le> change_interval cd \<and> (0 < next \<longleftrightarrow> 0 < change_interval cd))"
  proof (elim disjE exE conjE)
    fix t
    let ?e = "time_sub (fst (clock K (world s))) t"
    assume t: "lastChangeCheckTime (status (cr s)) = Some t" "?e < change_interval cd"
      and n: "next = wrap64 (change_interval cd - ?e)"
    have "wrap64 (change_interval cd - ?e) = change_interval cd - ?e" if "0 \<le> ?e"
      using that t(2) change_interval_int64 [of cd]
      by (intro wrap64_id) (auto simp: int64_def min_duration_def max_duration_def)
    with t show ?thesis unfolding n by (auto simp: wrap64_int64)
  qed (use change_interval_int64 in auto)
  with cd show ?thesis by blast
qed

lemma shouldReconcile_early:
  "run_result (shouldReconcile K poll) s = (False, wait) \<Longrightarrow>
   \<exists>cd. changeDetection (spec (cr s)) = Some cd \<and> cd_enabled cd"
  using shouldReconcile_decision by blast

section \<open>Properties\<close>

text \<open>With a positive poll interval the next wake-up is positive and at most the poll interval; it is
  the change interval exactly when change detection is on with a positive interval below it.\<close>

theorem nextRequeueInterval_bounds:
  assumes "0 < poll"
  shows "0 < nextRequeueInterval d poll \<and> nextRequeueInterval d poll \<le> poll \<and>
    (nextRequeueInterval d poll < poll \<longleftrightarrow>
       (\<exists>cd. changeDetection (spec d) = Some cd \<and> cd_enabled cd \<and> 0 < change_interval cd \<and> change_interval cd < poll)) \<and>
    (\<forall>cd. changeDetection (spec d) = Some cd \<longrightarrow> nextRequeueInterval d poll < poll \<longrightarrow>
       nextRequeueInterval d poll = change_interval cd)"
  using assms
  by (auto simp: nextRequeueInterval_def Let_def changePollIntervalFor_def split: option.splits if_splits)

theorem nextRequeueInterval_bounds_witness:
  "nextRequeueInterval sim_resource (60 * second) = 60 * second"
  using nextRequeueInterval_bounds [of "60 * second" sim_resource]
  by (simp add: second_def sim_resource_def sim_spec_def)

text \<open>C16: A pass is skipped only if it is not due: the generation was observed, change detection is on, and
  the last successful poll is less than the poll interval ago on the clock that was read. Every other
  call asks for a full pass and the poll interval.\<close>

theorem shouldReconcile_skips_only_early:
  assumes "run_result (shouldReconcile K poll) s = (full, next)"
  shows "(full \<longrightarrow> next = poll) \<and>
    (\<not> full \<longrightarrow> d_generation (cr s) \<le> observedGeneration (status (cr s)) \<and>
      (\<exists>cd lastPoll. changeDetection (spec (cr s)) = Some cd \<and> cd_enabled cd \<and>
         lastPollTime (status (cr s)) = Some lastPoll \<and>
         time_sub (fst (clock K (world s))) lastPoll < poll))"
  by (rule shouldReconcile_decision [OF assms])

theorem shouldReconcile_skips_only_early_witness:
  "run_result (shouldReconcile sim_env (60 * second)) sim_state = (True, 60 * second)"
proof -
  obtain full "next" where r: "run_result (shouldReconcile sim_env (60 * second)) sim_state = (full, next)"
    by (rule prod.exhaust)
  from shouldReconcile_skips_only_early [OF r] r show ?thesis
    by (auto simp: sim_state_def sim_resource_def sim_spec_def)
qed

text \<open>C17: A skipped pass asks for an int64 wait, and change detection is on. If the clock that was read is
  not behind the recorded check (or there is no check yet), the wait is at most the change interval, and it
  is positive exactly when the change interval is: a configured interval that is not positive gives a wait
  that is not positive.\<close>

theorem shouldReconcile_wait:
  assumes "run_result (shouldReconcile K poll) s = (False, next)"
  shows "\<exists>cd. changeDetection (spec (cr s)) = Some cd \<and> cd_enabled cd \<and> int64 next \<and>
    ((\<forall>t. lastChangeCheckTime (status (cr s)) = Some t \<longrightarrow> 0 \<le> time_sub (fst (clock K (world s))) t) \<longrightarrow>
       next \<le> change_interval cd \<and> (0 < next \<longleftrightarrow> 0 < change_interval cd))"
  by (rule shouldReconcile_wait_bounds [OF assms])

definition detecting_state :: "sim rs" where
  "detecting_state = sim_state\<lparr>cr := sim_resource
     \<lparr>spec := sim_spec\<lparr>changeDetection := Some \<lparr>cd_enabled = True, tableName = ''t'', timestampColumn = ''ts'',
         changePollInterval = ''10s''\<rparr>\<rparr>,
      status := sim_status\<lparr>lastPollTime := Some (GoTime 0 None), lastChangeCheckTime := Some (GoTime 400 None)\<rparr>\<rparr>\<rparr>"

theorem shouldReconcile_wait_witness:
  "\<exists>next. run_result (shouldReconcile sim_env (60 * second)) detecting_state = (False, next) \<and>
     0 < next \<and> next \<le> 10 * second"
proof -
  let ?cd = "\<lparr>cd_enabled = True, tableName = ''t'', timestampColumn = ''ts'', changePollInterval = ''10s''\<rparr>"
  have i: "change_interval ?cd = 10 * second" by code_simp
  have r: "run_result (shouldReconcile sim_env (60 * second)) detecting_state = (False, 9999999400)" by code_simp
  have s: "changeDetection (spec (cr detecting_state)) = Some ?cd" by (simp add: detecting_state_def)
  show ?thesis
    using shouldReconcile_wait [OF r] s i r
    by (simp add: detecting_state_def sim_state_def sim_world_def sim_env_def second_def time_sub_def saturate_def
        min_duration_def max_duration_def)
qed

definition detection_query_event :: "change_detection \<Rightarrow> event \<Rightarrow> bool" where
  "detection_query_event cd e =
     (case e of
        Read_Query q _ \<Rightarrow>
          (case (sanitizePGIdentifier (tableName cd), sanitizePGIdentifier (timestampColumn cd)) of
             (Inr t, Inr c) \<Rightarrow> prefix (''SELECT 1 FROM '' @ t @ '' WHERE '' @ c @ '' > '' @ [CHR 0x27]) q
           | _ \<Rightarrow> False)
      | Executed _ _ \<Rightarrow> False | Updated _ _ \<Rightarrow> False | Applied _ _ \<Rightarrow> False | Deleted _ _ \<Rightarrow> False
      | _ \<Rightarrow> True)"

text \<open>C18: Change detection sends the database one kind of query only: the one built from the sanitized
  table and column, and nothing at all when either of them is refused.\<close>

theorem detectChanges_query:
  "\<exists>es. history (run_after (detectChanges K d cd) s) = history s @ es \<and> list_all (detection_query_event cd) es"
proof -
  have "emits (detection_query_event cd) (detectChanges K d cd)"
    unfolding detectChanges_def run_detection_def
    by (intro emits_intros) (simp_all add: detection_query_event_def detection_query_def)
  then show ?thesis by (rule emitsD)
qed

text \<open>C19: When both names are accepted and a check is recorded, the detection sends one query, and the
  instant in it is exactly the recorded check time: read back as an RFC 3339 timestamp the literal gives
  the same nanosecond. This holds when the local offset at that time is a whole number of minutes and
  under 24 hours, and the local year is 0 to 9999; an offset with seconds (local mean time) would be cut.\<close>

theorem detection_instant_exact:
  assumes "sanitizePGIdentifier (tableName cd) = Inr table" "sanitizePGIdentifier (timestampColumn cd) = Inr column"
    and "lastChangeCheckTime (status d) = Some t"
    and "minute_offset (local_offset K) t" "0 \<le> local_year (local_offset K) t" "local_year (local_offset K) t \<le> 9999"
  shows "\<exists>literal ok. history (run_after (run_detection K d cd db) s) =
      history s @ [Read_Query (detection_query table column literal) ok] \<and>
    parse_rfc3339 literal = Some (wall_ns t)"
  using assms parse_format_rfc3339 [OF assms(4-6)]
  by (auto simp: run_detection_def client_read_def)

theorem detection_instant_exact_witness:
  "\<exists>literal ok. history (run_after (run_detection sim_env (cr detecting_state)
       \<lparr>cd_enabled = True, tableName = ''t'', timestampColumn = ''ts'', changePollInterval = []\<rparr> sim_client) sim_state) =
     [Read_Query (detection_query (CHR 0x22 # ''t'' @ [CHR 0x22]) (CHR 0x22 # ''ts'' @ [CHR 0x22]) literal) ok] \<and>
     parse_rfc3339 literal = Some 400"
proof -
  let ?cd = "\<lparr>cd_enabled = True, tableName = ''t'', timestampColumn = ''ts'', changePollInterval = []\<rparr>"
  have "sanitizePGIdentifier (tableName ?cd) = Inr (CHR 0x22 # ''t'' @ [CHR 0x22])"
    "sanitizePGIdentifier (timestampColumn ?cd) = Inr (CHR 0x22 # ''ts'' @ [CHR 0x22])" by code_simp+
  moreover have "lastChangeCheckTime (status (cr detecting_state)) = Some (GoTime 400 None)"
    by (simp add: detecting_state_def)
  moreover have "minute_offset (local_offset sim_env) (GoTime 400 None)" "local_year (local_offset sim_env) (GoTime 400 None) = 1970"
    by code_simp+
  moreover have "history sim_state = []" by (simp add: sim_state_def)
  ultimately show ?thesis
    using detection_instant_exact [of ?cd _ _ "cr detecting_state" "GoTime 400 None" sim_env sim_client sim_state] by simp
qed

text \<open>C36: A configured table name that starts and ends with a double quote goes into the detection query as it
  is, further double quotes included. So for all \<open>a\<close> and \<open>b\<close> without a dot and a zero byte (\<open>a\<close> not empty and
  without a double quote, \<open>b\<close> not empty and not starting with one), the table name made of \<open>a\<close> in double
  quotes, \<open>b\<close> and a double quote is accepted, and when the timestamp column is accepted too, the one query of
  the detection reads for PostgreSQL, after \<open>FROM\<close>, as the identifier \<open>a\<close> followed by \<open>b\<close> as SQL of its own.\<close>

theorem sanitizePGIdentifier_injection:
  assumes "tableName cd = dquote # a @ dquote # b @ [dquote]" "sanitizePGIdentifier (timestampColumn cd) = Inr column"
    and "a \<noteq> []" "dquote \<notin> set a" "b \<noteq> []" "\<not> prefix [dquote] b"
    and "CHR ''.'' \<notin> set (a @ b)" "CHR 0x00 \<notin> set (a @ b)"
  shows "\<exists>from_clause more ok. history (run_after (run_detection K d cd db) s) =
      history s @ [Read_Query (''SELECT 1 FROM '' @ from_clause) ok] \<and>
    lex_chain from_clause = ([a], b @ more)"
proof -
  let ?t = "dquote # a @ dquote # b @ [dquote]"
  have t: "sanitizePGIdentifier (tableName cd) = Inr ?t"
    unfolding assms(1) by (rule sanitizePGIdentifier_quotes_inside [OF assms(3,7,8)])
  have b: "\<not> prefix ''.'' b" using assms(7) by (auto simp: prefix_def)
  show ?thesis
    unfolding run_detection_def Let_def t assms(2)
    using lex_chain_quotes_inside [OF assms(4-6) b]
    by (simp add: client_read_def detection_query_def)
qed

theorem sanitizePGIdentifier_injection_witness:
  "\<exists>from_clause more ok. history (run_after (run_detection sim_env (cr detecting_state)
       \<lparr>cd_enabled = True, tableName = [dquote] @ ''t'' @ [dquote] @ ''; DELETE FROM t; --'' @ [dquote],
         timestampColumn = ''ts'', changePollInterval = []\<rparr> sim_client) sim_state) =
     [Read_Query (''SELECT 1 FROM '' @ from_clause) ok] \<and>
     lex_chain from_clause = ([''t''], ''; DELETE FROM t; --'' @ more)"
proof -
  let ?cd = "\<lparr>cd_enabled = True, tableName = [dquote] @ ''t'' @ [dquote] @ ''; DELETE FROM t; --'' @ [dquote],
         timestampColumn = ''ts'', changePollInterval = []\<rparr>"
  have "tableName ?cd = dquote # ''t'' @ dquote # ''; DELETE FROM t; --'' @ [dquote]" by simp
  moreover have "sanitizePGIdentifier (timestampColumn ?cd) = Inr (CHR 0x22 # ''ts'' @ [CHR 0x22])" by code_simp
  moreover have "history sim_state = []" by (simp add: sim_state_def)
  ultimately show ?thesis
    using sanitizePGIdentifier_injection [of ?cd "''t''" "''; DELETE FROM t; --''" _ sim_env "cr detecting_state" sim_client sim_state]
    by simp
qed

end
