(* ===== verification/Children.thy ===== *)
theory Children
  imports Schedule
begin

text \<open>
  The children of a resource: the keys under which \<open>status.managedResources\<close> and
  \<open>status.resourceVersions\<close> record them (\<open>getObjectKey\<close>), reading them back
  (\<open>collectAllChildResources\<close> and the loops of \<open>Reconcile\<close> that collect children for the status
  update), deleting the stale ones (\<open>pruneStaleResources\<close>), and writing their state to the database
  (\<open>updateStatusForChildResources\<close>).
\<close>

section \<open>Keys\<close>

definition object_key :: "gvk \<Rightarrow> string \<Rightarrow> string \<Rightarrow> string" where
  "object_key g ns n =
     gvk_group g @ ''/'' @ gvk_version g @ ''/'' @ gvk_kind g @ ''/'' @ ns @ ''/'' @ n"

definition getObjectKey :: "unstructured \<Rightarrow> string" where
  "getObjectKey obj = object_key (u_gvk obj) (u_namespace obj) (u_name obj)"

text \<open>The parts of an entry of \<open>status.managedResources\<close>: \<open>collectAllChildResources\<close> takes exactly
  five of them and wants a kind and a name, the other two loops take any entry with at least five.\<close>

definition key_parts :: "string \<Rightarrow> (gvk \<times> string \<times> string) option" where
  "key_parts resID =
     (case split_on (CHR ''/'') resID of
        [g, v, k, ns, n] \<Rightarrow> if k = [] \<or> n = [] then None else Some (GVK g v k, ns, n)
      | _ \<Rightarrow> None)"

definition loose_key_parts :: "string \<Rightarrow> (gvk \<times> string \<times> string) option" where
  "loose_key_parts resID =
     (case split_on (CHR ''/'') resID of
        g # v # k # ns # n # _ \<Rightarrow> Some (GVK g v k, ns, n)
      | _ \<Rightarrow> None)"

section \<open>Collecting\<close>

text \<open>Read the objects of the entries in order. Entries that do not parse and objects that cannot be
  read are skipped, whatever the error.\<close>

primrec collect_objects ::
    "('w, 'v, 'c) env \<Rightarrow> (string \<Rightarrow> (gvk \<times> string \<times> string) option) \<Rightarrow> string list \<Rightarrow>
     ('w, unstructured list) prog" where
  "collect_objects K parts [] = State_Monad.return []"
| "collect_objects K parts (resID # ids) =
     (case parts resID of
        None \<Rightarrow> collect_objects K parts ids
      | Some (g, ns, n) \<Rightarrow> do {
          r \<leftarrow> do_get K g ns n;
          objs \<leftarrow> collect_objects K parts ids;
          State_Monad.return (case r of Inl _ \<Rightarrow> objs | Inr obj \<Rightarrow> obj # objs)
        })"

text \<open>\<open>collectAllChildResources\<close>; its error is always nil.\<close>

definition collectAllChildResources ::
    "('w, 'v, 'c) env \<Rightarrow> ('w, api_error + unstructured list) prog" where
  "collectAllChildResources K = do {
     d \<leftarrow> read_cr;
     objs \<leftarrow> collect_objects K key_parts (managed_list (status d));
     State_Monad.return (Inr objs)
   }"

definition collect_managed_children :: "('w, 'v, 'c) env \<Rightarrow> ('w, unstructured list) prog" where
  "collect_managed_children K = do {
     d \<leftarrow> read_cr;
     collect_objects K loose_key_parts (managed_list (status d))
   }"

section \<open>Pruning\<close>

definition forget_version :: "string \<Rightarrow> dbqr \<Rightarrow> dbqr" where
  "forget_version key d =
     d\<lparr>status := (status d)\<lparr>resourceVersions := map_option (fmdrop key) (resourceVersions (status d))\<rparr>\<rparr>"

text \<open>\<open>pruneStaleResources\<close>: the texts of the errors of failed deletions.\<close>

primrec pruneStaleResources ::
    "('w, 'v, 'c) env \<Rightarrow> string fset \<Rightarrow> unstructured list \<Rightarrow> ('w, string list) prog" where
  "pruneStaleResources K currentKeys [] = State_Monad.return []"
| "pruneStaleResources K currentKeys (item # items) =
     (let objKey = getObjectKey item in
      if objKey |\<in>| currentKeys then pruneStaleResources K currentKeys items
      else do {
        r \<leftarrow> do_delete K item;
        case r of
          None \<Rightarrow> do {
            _ \<leftarrow> write_cr (forget_version objKey);
            pruneStaleResources K currentKeys items
          }
        | Some err \<Rightarrow>
            if is_not_found err then do {
              _ \<leftarrow> write_cr (forget_version objKey);
              pruneStaleResources K currentKeys items
            }
            else do {
              errors \<leftarrow> pruneStaleResources K currentKeys items;
              State_Monad.return ((''delete '' @ objKey @ '': '' @ error_text err) # errors)
            }
      })"

section \<open>Conditions\<close>

definition setCondition ::
    "('w, 'v, 'c) env \<Rightarrow> string \<Rightarrow> string \<Rightarrow> string \<Rightarrow> string \<Rightarrow> ('w, unit) prog" where
  "setCondition K typeString st reason message = do {
     t \<leftarrow> now K;
     write_cr (\<lambda>d. d\<lparr>status := (status d)\<lparr>conditions := set_status_condition K (conditions (status d))
       \<lparr>c_type = typeString, c_status = st, c_observedGeneration = d_generation d,
        c_lastTransitionTime = t, c_reason = reason, c_message = message\<rparr>\<rparr>\<rparr>)
   }"

definition ConditionReconciled :: string where "ConditionReconciled = ''Reconciled''"
definition ConditionDBConnected :: string where "ConditionDBConnected = ''DBConnected''"

section \<open>Status updates in the database\<close>

definition execute_template :: "('w, 'v, 'c) env \<Rightarrow> string \<Rightarrow> string \<Rightarrow> 'v template_data \<Rightarrow> ('w, string + string) prog" where
  "execute_template K name tmpl data = call (template_execute K name tmpl data) (\<lambda>_. Rendered name)"

definition record_version :: "string \<Rightarrow> string \<Rightarrow> dbqr \<Rightarrow> dbqr" where
  "record_version key version d =
     d\<lparr>status := (status d)\<lparr>resourceVersions :=
       Some (fmupd key version (case resourceVersions (status d) of None \<Rightarrow> fmempty | Some m \<Rightarrow> m))\<rparr>\<rparr>"

definition seen_version :: "dbqr \<Rightarrow> string \<Rightarrow> string option" where
  "seen_version d key = Option.bind (resourceVersions (status d)) (\<lambda>m. fmlookup m key)"

text \<open>One child: whether its state was written, and the client that was opened for it. The clients are
  closed when the function ends.\<close>

definition status_update_child ::
    "('w, 'v, 'c) env \<Rightarrow> db_config \<Rightarrow> unstructured \<Rightarrow> ('w, bool \<times> ('w, 'v) db_client list) prog" where
  "status_update_child K dbConfig obj = do {
     d \<leftarrow> read_cr;
     let resourceKey = getObjectKey obj;
     let tmpl = statusUpdateQueryTemplate (spec d);
     if seen_version d resourceKey = Some (u_resourceVersion obj) then State_Monad.return (False, [])
     else do {
       client \<leftarrow> open_client K d dbConfig;
       case client of
         Inl _ \<Rightarrow> State_Monad.return (False, [])
       | Inr dbClient \<Rightarrow>
           (case template_parse K ''statusUpdateQuery'' tmpl of
              Some _ \<Rightarrow> State_Monad.return (False, [dbClient])
            | None \<Rightarrow> do {
                r \<leftarrow> execute_template K ''statusUpdateQuery'' tmpl (Resource_Data obj);
                case r of
                  Inl _ \<Rightarrow> State_Monad.return (False, [dbClient])
                | Inr sql \<Rightarrow> do {
                    err \<leftarrow> client_exec dbClient sql;
                    case err of
                      Some _ \<Rightarrow> State_Monad.return (False, [dbClient])
                    | None \<Rightarrow> do {
                        _ \<leftarrow> write_cr (record_version resourceKey (u_resourceVersion obj));
                        _ \<leftarrow> setCondition K ConditionReconciled ''True'' ''ChildResourceChanged''
                               ''Status updated due to child resource event'';
                        State_Monad.return (True, [dbClient])
                      }
                  }
              })
     }
   }"

primrec status_update_children ::
    "('w, 'v, 'c) env \<Rightarrow> db_config \<Rightarrow> unstructured list \<Rightarrow> ('w, nat \<times> ('w, 'v) db_client list) prog" where
  "status_update_children K dbConfig [] = State_Monad.return (0, [])"
| "status_update_children K dbConfig (obj # objs) = do {
     (updated, cs) \<leftarrow> status_update_child K dbConfig obj;
     (n, ds) \<leftarrow> status_update_children K dbConfig objs;
     State_Monad.return ((if updated then Suc n else n), cs @ ds)
   }"

primrec close_clients :: "('w, 'v) db_client list \<Rightarrow> ('w, unit) prog" where
  "close_clients [] = State_Monad.return ()"
| "close_clients (c # cs) = do { _ \<leftarrow> client_close c; close_clients cs }"

definition init_versions :: "dbqr \<Rightarrow> dbqr" where
  "init_versions d =
     d\<lparr>status := (status d)\<lparr>resourceVersions :=
       Some (case resourceVersions (status d) of None \<Rightarrow> fmempty | Some m \<Rightarrow> m)\<rparr>\<rparr>"

definition updateStatusForChildResources ::
    "('w, 'v, 'c) env \<Rightarrow> unstructured list \<Rightarrow> db_config \<Rightarrow> ('w, nat) prog" where
  "updateStatusForChildResources K children dbConfig = do {
     d \<leftarrow> read_cr;
     if statusUpdateQueryTemplate (spec d) = [] then State_Monad.return 0
     else do {
       _ \<leftarrow> write_cr init_versions;
       (updatedCount, clients) \<leftarrow> status_update_children K dbConfig children;
       _ \<leftarrow> close_clients (rev clients);
       State_Monad.return updatedCount
     }
   }"

section \<open>Keys determine objects\<close>

definition key_part :: "string \<Rightarrow> bool" where
  "key_part p \<longleftrightarrow> CHR ''/'' \<notin> set p"

definition wf_object :: "gvk \<Rightarrow> string \<Rightarrow> string \<Rightarrow> bool" where
  "wf_object g ns n \<longleftrightarrow> key_part (gvk_group g) \<and> key_part (gvk_version g) \<and> key_part (gvk_kind g) \<and>
     key_part ns \<and> key_part n \<and> gvk_kind g \<noteq> [] \<and> n \<noteq> []"

lemma split_object_key:
  assumes "wf_object g ns n"
  shows "split_on (CHR ''/'') (object_key g ns n) = [gvk_group g, gvk_version g, gvk_kind g, ns, n]"
  using assms by (simp add: wf_object_def key_part_def object_key_def)

lemma key_parts_object_key: "wf_object g ns n \<Longrightarrow> key_parts (object_key g ns n) = Some (g, ns, n)"
  by (cases g) (simp add: key_parts_def split_object_key, simp add: wf_object_def)

lemma loose_key_parts_object_key: "wf_object g ns n \<Longrightarrow> loose_key_parts (object_key g ns n) = Some (g, ns, n)"
  by (cases g) (simp add: loose_key_parts_def split_object_key)

lemma key_parts_Some:
  assumes "key_parts k = Some (g, ns, n)"
  shows "k = object_key g ns n" "wf_object g ns n"
proof -
  have parts: "split_on (CHR ''/'') k = [gvk_group g, gvk_version g, gvk_kind g, ns, n]"
    and ne: "gvk_kind g \<noteq> []" "n \<noteq> []"
    using assms by (auto simp: key_parts_def split: list.splits if_splits)
  show "k = object_key g ns n"
    using join_split_on [of "CHR ''/''" k] by (simp add: parts object_key_def)
  have "\<forall>p \<in> set (split_on (CHR ''/'') k). CHR ''/'' \<notin> set p"
    using split_on_parts by blast
  with ne show "wf_object g ns n" by (simp add: parts wf_object_def key_part_def)
qed

section \<open>Calls\<close>

lemma emits_collect_objects:
  assumes "\<And>id g ns n r. id \<in> set ids \<Longrightarrow> parts id = Some (g, ns, n) \<Longrightarrow> A (Got g ns n r)"
  shows "emits A (collect_objects K parts ids)"
  using assms
proof (induction ids)
  case (Cons i ids)
  have IH: "emits A (collect_objects K parts ids)" by (rule Cons.IH) (auto intro: Cons.prems)
  show ?case
    unfolding collect_objects.simps by (intro emits_intros IH) (auto intro: Cons.prems)
qed (simp add: emits_return)

lemma emits_pruneStaleResources:
  assumes "\<And>u r. u \<in> set objs \<Longrightarrow> getObjectKey u |\<notin>| keys \<Longrightarrow> A (Deleted u r)"
  shows "emits A (pruneStaleResources K keys objs)"
  using assms
proof (induction objs)
  case (Cons u objs)
  have IH: "emits A (pruneStaleResources K keys objs)" by (rule Cons.IH) (auto intro: Cons.prems)
  show ?case
    unfolding pruneStaleResources.simps Let_def by (intro emits_intros IH) (auto intro: Cons.prems)
qed (simp add: emits_return)

lemma emits_setCondition [emits_intros]:
  "(\<And>t. A (Clock_Read t)) \<Longrightarrow> emits A (setCondition K t st r m)"
  unfolding setCondition_def by (intro emits_intros)

lemma emits_execute_template [emits_intros]: "A (Rendered name) \<Longrightarrow> emits A (execute_template K name t d)"
  by (simp add: execute_template_def emits_call)

text \<open>An event of a status update in the database.\<close>

definition status_event :: "event \<Rightarrow> bool" where
  "status_event e =
     (case e of
        Connected _ _ \<Rightarrow> True | Executed _ _ \<Rightarrow> True | Closed \<Rightarrow> True | Clock_Read _ \<Rightarrow> True
      | Rendered _ \<Rightarrow> True | _ \<Rightarrow> False)"

lemma emits_status_update_child: "emits status_event (status_update_child K config obj)"
  unfolding status_update_child_def Let_def by (intro emits_intros) (simp_all add: status_event_def)

lemma emits_close_clients: "emits status_event (close_clients cs)"
  by (induction cs) (auto intro!: emits_intros simp: status_event_def)

lemma emits_status_update_children: "emits status_event (status_update_children K config objs)"
  by (induction objs) (auto intro!: emits_intros emits_status_update_child)

lemma emits_updateStatusForChildResources:
  "emits status_event (updateStatusForChildResources K objs config)"
  unfolding updateStatusForChildResources_def
  by (intro emits_intros emits_status_update_children emits_close_clients)

section \<open>The key interface\<close>

text \<open>What the status lists need of keys: well-formed objects have one that reads back, and every key
  that reads is the key of what it reads as.\<close>

locale key_codec =
  fixes enc :: "'k \<Rightarrow> string" and dec :: "string \<Rightarrow> 'k option" and wf :: "'k \<Rightarrow> bool"
  assumes dec_enc: "wf k \<Longrightarrow> dec (enc k) = Some k"
    and enc_dec: "dec s = Some k \<Longrightarrow> s = enc k \<and> wf k"
begin

lemma enc_inj: "wf a \<Longrightarrow> wf b \<Longrightarrow> enc a = enc b \<Longrightarrow> a = b"
  by (metis dec_enc option.inject)

lemma dec_iff: "dec s = Some k \<longleftrightarrow> wf k \<and> s = enc k"
  using dec_enc enc_dec by blast

end

interpretation object_keys: key_codec "\<lambda>(g, ns, n). object_key g ns n" key_parts "\<lambda>(g, ns, n). wf_object g ns n"
  by unfold_locales (auto simp: key_parts_object_key dest: key_parts_Some)

section \<open>Counting status updates\<close>

definition exec_ok :: "event \<Rightarrow> bool" where
  "exec_ok e = (case e of Executed _ b \<Rightarrow> b | _ \<Rightarrow> False)"

definition exec_count :: "event list \<Rightarrow> nat" where
  "exec_count es = length (filter exec_ok es)"

lemma exec_count_append: "exec_count (es @ fs) = exec_count es + exec_count fs"
  by (simp add: exec_count_def)

lemma exec_count_calls [simp]:
  "exec_count (history (run_after (open_client K d config) s)) = exec_count (history s)"
  "exec_count (history (run_after (execute_template K name t data) s)) = exec_count (history s)"
  "exec_count (history (run_after (client_close c) s)) = exec_count (history s)"
  "exec_count (history (run_after (setCondition K ty st r m) s)) = exec_count (history s)"
  "exec_count (history (run_after (client_exec c q) s)) =
     exec_count (history s) + (if run_result (client_exec c q) s = None then 1 else 0)"
  by (simp_all add: open_client_def execute_template_def client_close_def setCondition_def now_def
      client_exec_def exec_count_def exec_ok_def)

lemma exec_count_child:
  "exec_count (history (run_after (status_update_child K config obj) s)) =
     exec_count (history s) + (if fst (run_result (status_update_child K config obj) s) then 1 else 0)"
  by (simp add: status_update_child_def Let_def split: sum.split option.split)

lemma exec_count_children:
  "exec_count (history (run_after (status_update_children K config objs) s)) =
     exec_count (history s) + fst (run_result (status_update_children K config objs) s)"
proof (induction objs arbitrary: s)
  case (Cons obj objs)
  show ?case
    using Cons [of "run_after (status_update_child K config obj) s"] exec_count_child [of K config obj s]
    by (simp add: split_def)
qed simp

lemma exec_count_close_clients [simp]:
  "exec_count (history (run_after (close_clients cs) s)) = exec_count (history s)"
  by (induction cs arbitrary: s) simp_all

section \<open>Properties\<close>

text \<open>C20: Keys are unambiguous: an entry of \<open>status.managedResources\<close> parses as an object exactly when it
  is the key of that object and the object is well-formed (no slash in its parts, a kind and a name);
  so two well-formed objects with the same key are the same.\<close>

theorem managed_key_codec:
  "(key_parts s = Some (g, ns, n) \<longleftrightarrow> wf_object g ns n \<and> s = object_key g ns n) \<and>
   (wf_object g ns n \<longrightarrow> wf_object g' ns' n' \<longrightarrow> object_key g ns n = object_key g' ns' n' \<longrightarrow>
      (g, ns, n) = (g', ns', n'))"
  using object_keys.dec_iff [of s "(g, ns, n)"] object_keys.enc_inj [of "(g, ns, n)" "(g', ns', n')"] by auto

theorem managed_key_codec_witness:
  "key_parts ''apps/v1/Deployment/default/web'' = Some (GVK ''apps'' ''v1'' ''Deployment'', ''default'', ''web'') \<and>
   wf_object (GVK ''apps'' ''v1'' ''Deployment'') ''default'' ''web''"
proof -
  have "wf_object (GVK ''apps'' ''v1'' ''Deployment'') ''default'' ''web''"
    by (simp add: wf_object_def key_part_def)
  moreover have "object_key (GVK ''apps'' ''v1'' ''Deployment'') ''default'' ''web'' = ''apps/v1/Deployment/default/web''"
    by (simp add: object_key_def)
  ultimately show ?thesis
    using conjunct1 [OF managed_key_codec, THEN iffD2] by metis
qed

text \<open>C21: \<open>updateStatusForChildResources\<close> makes database and clock calls only, and the number it returns
  is the number of status queries that were executed without error; without a template it does nothing.\<close>

theorem updateStatus_count:
  "(\<exists>es. history (run_after (updateStatusForChildResources K objs config) s) = history s @ es \<and>
     list_all status_event es \<and>
     exec_count es = run_result (updateStatusForChildResources K objs config) s) \<and>
   (statusUpdateQueryTemplate (spec (cr s)) = [] \<longrightarrow> run_after (updateStatusForChildResources K objs config) s = s)"
proof -
  let ?m = "updateStatusForChildResources K objs config"
  obtain es where es: "history (run_after ?m s) = history s @ es" "list_all status_event es"
    using emitsD [OF emits_updateStatusForChildResources] by blast
  have "exec_count (history (run_after ?m s)) = exec_count (history s) + run_result ?m s"
    using exec_count_children [of K config objs] by (simp add: updateStatusForChildResources_def split_def)
  with es have "exec_count es = run_result ?m s" by (simp add: exec_count_append)
  moreover have "statusUpdateQueryTemplate (spec (cr s)) = [] \<longrightarrow> run_after ?m s = s"
    by (simp add: updateStatusForChildResources_def)
  ultimately show ?thesis using es by blast
qed

theorem updateStatus_count_witness:
  "run_after (updateStatusForChildResources sim_env [sim_child] fmempty) sim_state = sim_state"
  using updateStatus_count [of sim_env "[sim_child]" fmempty sim_state]
  by (simp add: sim_state_def sim_resource_def sim_spec_def)

text \<open>A child whose recorded version is its current one costs nothing; any other child whose query is
  executed has its version recorded, so it is not written again until it changes.\<close>

theorem status_update_once:
  "(seen_version (cr s) (getObjectKey obj) = Some (u_resourceVersion obj) \<longrightarrow>
      run_state (status_update_child K config obj) s = ((False, []), s)) \<and>
   (fst (run_result (status_update_child K config obj) s) \<longrightarrow>
      seen_version (cr (run_after (status_update_child K config obj) s)) (getObjectKey obj) =
        Some (u_resourceVersion obj))"
proof -
  have sc: "seen_version (cr (run_after (setCondition K t st r m) s)) k = seen_version (cr s) k" for t st r m s k
    by (simp add: setCondition_def seen_version_def)
  have rv: "seen_version (record_version k v d) k = Some v" for k v d
    by (simp add: seen_version_def record_version_def)
  show ?thesis
    by (auto simp: run_state_split status_update_child_def Let_def sc rv
        execute_template_def client_exec_def open_client_def split: sum.splits option.splits)
qed

definition templated_state :: "sim rs" where
  "templated_state = sim_state\<lparr>cr := sim_resource\<lparr>spec := sim_spec\<lparr>statusUpdateQueryTemplate := ''q''\<rparr>\<rparr>\<rparr>"

theorem status_update_once_witness:
  "fst (run_result (status_update_child sim_env fmempty sim_child) templated_state) \<and>
   seen_version (cr (run_after (status_update_child sim_env fmempty sim_child) templated_state))
     (getObjectKey sim_child) = Some ''5''"
proof -
  have "fst (run_result (status_update_child sim_env fmempty sim_child) templated_state)"
    by (simp add: status_update_child_def Let_def open_client_def getOrCreateDBClient_def execute_template_def
        client_exec_def templated_state_def seen_version_def sim_env_def sim_state_def sim_resource_def
        sim_status_def sim_spec_def sim_render_def sim_client_def)
  moreover have "u_resourceVersion sim_child = ''5''" by (simp add: sim_child_def)
  ultimately show ?thesis
    using conjunct2 [OF status_update_once [of templated_state sim_child sim_env fmempty]] by metis
qed

end
