(* ===== verification/Managed_Config.thy ===== *)
theory Managed_Config
  imports Cluster
begin

text \<open>
  The helpers of \<open>databasequeryresource_controller.go\<close> that decide whether a child object is up to
  date: the configuration stored in the annotation \<open>konnektr.io/last-applied-configuration\<close>, its
  JSON form, and the comparison of stored and desired configuration.

  The struct is written in the order of its fields with \<open>omitempty\<close>, and read back by
  \<open>json.Unmarshal\<close> into the struct: a member goes to the field whose name it is up to case, null
  leaves a struct as it is and makes an interface or a map nil, a map is merged into the one already
  read.
\<close>

definition LastAppliedConfigAnnotation :: string where
  "LastAppliedConfigAnnotation = ''konnektr.io/last-applied-configuration''"

definition ManagedByLabel :: string where
  "ManagedByLabel = ''konnektr.io/managed-by''"

definition empty_config :: managed_config where
  "empty_config = \<lparr>mc_spec = GNil, mc_data = GNil, mc_labels = None, mc_annotations = None\<rparr>"

section \<open>Writing\<close>

definition string_map :: "string smap \<Rightarrow> gval" where
  "string_map m = GObj (fmmap GStr m)"

text \<open>A field with \<open>omitempty\<close>: nil interfaces and maps without entries are left out.\<close>

definition value_field :: "string \<Rightarrow> gval \<Rightarrow> (string \<times> gval) list" where
  "value_field name v = (if v = GNil then [] else [(name, v)])"

definition map_field :: "string \<Rightarrow> string smap option \<Rightarrow> (string \<times> gval) list" where
  "map_field name m = (case m of None \<Rightarrow> [] | Some x \<Rightarrow> if x = fmempty then [] else [(name, string_map x)])"

definition config_fields :: "managed_config \<Rightarrow> (string \<times> gval) list" where
  "config_fields c =
     value_field ''spec'' (mc_spec c) @ value_field ''data'' (mc_data c) @
     map_field ''labels'' (mc_labels c) @ map_field ''annotations'' (mc_annotations c)"

definition config_tree :: "managed_config \<Rightarrow> jv" where
  "config_tree c = JObj (map (apsnd tree_of) (config_fields c))"

definition config_marshal :: "managed_config \<Rightarrow> string option" where
  "config_marshal c =
     (if json_supported (mc_spec c) \<and> json_supported (mc_data c) then Some (print_json (config_tree c))
      else None)"

section \<open>Reading\<close>

text \<open>\<open>foldName\<close> of \<open>encoding/json\<close>, as far as the names of the fields need it: the runes that fold
  to an ASCII letter are its two cases, U+017F (to S) and U+212A (to K).\<close>

definition fold_rune :: "nat \<Rightarrow> nat" where
  "fold_rune r =
     (if 97 \<le> r \<and> r \<le> 122 then r - 32 else if r = 383 then 83 else if r = 8490 then 75 else r)"

definition same_name :: "string \<Rightarrow> string \<Rightarrow> bool" where
  "same_name a b \<longleftrightarrow> map fold_rune (runes a) = map fold_rune (runes b)"

fun decode_string_members :: "(string \<times> jv) list \<Rightarrow> string smap \<Rightarrow> string smap option" where
  "decode_string_members [] m = Some m"
| "decode_string_members ((k, v) # ms) m =
     (case v of
        JStr s \<Rightarrow> decode_string_members ms (fmupd k s m)
      | JNull \<Rightarrow> decode_string_members ms (fmupd k [] m)
      | _ \<Rightarrow> None)"

text \<open>Decoding into a \<open>map[string]string\<close> field that holds \<open>old\<close>; \<open>None\<close> is a decoding error.\<close>

definition decode_string_map :: "string smap option \<Rightarrow> jv \<Rightarrow> string smap option option" where
  "decode_string_map old v =
     (case v of
        JNull \<Rightarrow> Some None
      | JObj ms \<Rightarrow>
          map_option Some (decode_string_members ms (case old of None \<Rightarrow> fmempty | Some m \<Rightarrow> m))
      | _ \<Rightarrow> None)"

definition decode_member :: "managed_config \<Rightarrow> string \<Rightarrow> jv \<Rightarrow> managed_config option" where
  "decode_member c k v =
     (if same_name k ''spec'' then map_option (\<lambda>x. c\<lparr>mc_spec := x\<rparr>) (to_gval v)
      else if same_name k ''data'' then map_option (\<lambda>x. c\<lparr>mc_data := x\<rparr>) (to_gval v)
      else if same_name k ''labels'' then
        map_option (\<lambda>m. c\<lparr>mc_labels := m\<rparr>) (decode_string_map (mc_labels c) v)
      else if same_name k ''annotations'' then
        map_option (\<lambda>m. c\<lparr>mc_annotations := m\<rparr>) (decode_string_map (mc_annotations c) v)
      else Some c)"

fun decode_members :: "(string \<times> jv) list \<Rightarrow> managed_config \<Rightarrow> managed_config option" where
  "decode_members [] c = Some c"
| "decode_members ((k, v) # ms) c =
     (case decode_member c k v of None \<Rightarrow> None | Some c' \<Rightarrow> decode_members ms c')"

definition config_of_tree :: "jv \<Rightarrow> managed_config option" where
  "config_of_tree v =
     (case v of
        JNull \<Rightarrow> Some empty_config
      | JObj ms \<Rightarrow> decode_members ms empty_config
      | _ \<Rightarrow> None)"

definition config_unmarshal :: "string \<Rightarrow> managed_config option" where
  "config_unmarshal b = Option.bind (parse_json b) config_of_tree"

section \<open>The annotation\<close>

definition getLastAppliedConfig :: "unstructured \<Rightarrow> config_error + managed_config option" where
  "getLastAppliedConfig obj =
     (case u_annotations obj of
        None \<Rightarrow> Inr None
      | Some annotations \<Rightarrow>
          (case fmlookup annotations LastAppliedConfigAnnotation of
             None \<Rightarrow> Inr None
           | Some lastAppliedStr \<Rightarrow>
               (case config_unmarshal lastAppliedStr of
                  None \<Rightarrow> Inl (Unmarshal_Error lastAppliedStr)
                | Some config \<Rightarrow> Inr (Some config))))"

text \<open>The configuration of an object, without the annotation that stores one.\<close>

definition config_of :: "unstructured \<Rightarrow> managed_config" where
  "config_of obj =
     \<lparr>mc_spec = obj_field obj ''spec'', mc_data = obj_field obj ''data'', mc_labels = u_labels obj,
      mc_annotations = map_option (fmdrop LastAppliedConfigAnnotation) (u_annotations obj)\<rparr>"

definition setLastAppliedConfig :: "unstructured \<Rightarrow> config_error + unstructured" where
  "setLastAppliedConfig obj =
     (case config_marshal (config_of obj) of
        None \<Rightarrow> Inl (Marshal_Error (config_of obj))
      | Some configBytes \<Rightarrow>
          (let annotations = (case u_annotations obj of None \<Rightarrow> fmempty | Some m \<Rightarrow> m)
           in Inr (obj\<lparr>u_annotations := Some (fmupd LastAppliedConfigAnnotation configBytes annotations)\<rparr>)))"

section \<open>The comparison\<close>

text \<open>\<open>canonicalConfig\<close>: the decoded JSON of the configuration, or the struct itself when it has
  none. \<open>reflect.DeepEqual\<close> tells a struct from a map; on structs it is equality of the fields,
  except that a NaN equals nothing.\<close>

definition canonicalConfig :: "managed_config \<Rightarrow> managed_config + gval" where
  "canonicalConfig v =
     (case config_marshal v of
        None \<Rightarrow> Inl v
      | Some b \<Rightarrow> (case json_unmarshal b of None \<Rightarrow> Inl v | Some out \<Rightarrow> Inr out))"

primrec no_nan :: "gval \<Rightarrow> bool" where
  "no_nan GNil = True"
| "no_nan (GBool b) = True"
| "no_nan (GInt i) = True"
| "no_nan (GFloat f) = (f \<noteq> F64_NaN)"
| "no_nan (GStr s) = True"
| "no_nan (GArr vs) = list_all id (map no_nan vs)"
| "no_nan (GObj m) = fmpred (\<lambda>_ b. b) (fmmap no_nan m)"

definition configsEqual :: "managed_config \<Rightarrow> managed_config \<Rightarrow> bool" where
  "configsEqual lastApplied current =
     (case (canonicalConfig lastApplied, canonicalConfig current) of
        (Inr x, Inr y) \<Rightarrow> x = y
      | (Inl x, Inl y) \<Rightarrow> x = y \<and> no_nan (mc_spec x) \<and> no_nan (mc_data x)
      | _ \<Rightarrow> False)"

section \<open>Overlaying the desired state\<close>

text \<open>The annotations of the desired object are merged, an empty value removes the key.\<close>

definition merge_annotations :: "string smap \<Rightarrow> string smap \<Rightarrow> string smap" where
  "merge_annotations desired existing =
     fmfilter (\<lambda>k. fmlookup desired k \<noteq> Some []) (existing ++\<^sub>f desired)"

definition applyDesiredState :: "unstructured \<Rightarrow> unstructured \<Rightarrow> unstructured" where
  "applyDesiredState existing desired =
     (let m1 = fmupd ''spec'' (obj_field desired ''spec'') (members existing);
          m2 = (if obj_field desired ''data'' \<noteq> GNil then fmupd ''data'' (obj_field desired ''data'') m1
                else fmdrop ''data'' m1);
          existingAnns = (case u_annotations existing of None \<Rightarrow> fmempty | Some m \<Rightarrow> m);
          desiredAnns = (case u_annotations desired of None \<Rightarrow> fmempty | Some m \<Rightarrow> m)
      in existing\<lparr>members := m2, u_labels := u_labels desired,
                  u_annotations := Some (merge_annotations desiredAnns existingAnns)\<rparr>)"

section \<open>A stored configuration reads back\<close>

text \<open>What is left of a configuration after it was stored and read: decoded numbers, and no empty
  maps.\<close>

definition stored_map :: "string smap option \<Rightarrow> string smap option" where
  "stored_map m = (if m = Some fmempty then None else m)"

definition config_norm :: "managed_config \<Rightarrow> managed_config" where
  "config_norm c =
     \<lparr>mc_spec = json_norm (mc_spec c), mc_data = json_norm (mc_data c),
      mc_labels = stored_map (mc_labels c), mc_annotations = stored_map (mc_annotations c)\<rparr>"

definition plain_map :: "string smap option \<Rightarrow> bool" where
  "plain_map m = (case m of None \<Rightarrow> True | Some x \<Rightarrow> fmpred (\<lambda>k v. valid_utf8 k \<and> valid_utf8 v) x)"

definition config_plain :: "managed_config \<Rightarrow> bool" where
  "config_plain c \<longleftrightarrow> json_plain (mc_spec c) \<and> json_plain (mc_data c) \<and>
     plain_map (mc_labels c) \<and> plain_map (mc_annotations c)"

lemma json_norm_GNil [simp]: "json_norm v = GNil \<longleftrightarrow> v = GNil"
  by (cases v) simp_all

lemma json_norm_string_map [simp]: "json_norm (string_map m) = string_map m"
  by (simp add: string_map_def fmap.map_comp comp_def)

lemma string_map_inj [simp]: "string_map a = string_map b \<longleftrightarrow> a = b"
proof
  assume "string_map a = string_map b"
  then have "fmmap GStr a = fmmap GStr b" by (simp add: string_map_def)
  then show "a = b" by (metis fmap.inj_map_strong gval.inject(4))
qed simp

lemma json_plain_string_map: "plain_map (Some m) \<Longrightarrow> json_plain (string_map m)"
  by (auto simp: plain_map_def string_map_def)

lemma field_names_valid: "valid_utf8 ''spec''" "valid_utf8 ''data''" "valid_utf8 ''labels''" "valid_utf8 ''annotations''"
  by (simp_all add: ascii_valid_utf8 ascii_def)

lemma config_fields_plain:
  assumes "config_plain c" "(k, v) \<in> set (config_fields c)"
  shows "valid_utf8 k" "json_plain v"
  using assms
  by (auto simp: config_fields_def value_field_def map_field_def config_plain_def field_names_valid
      json_plain_string_map split: if_splits option.splits)

lemma config_fields_norm: "config_fields (config_norm c) = map (apsnd json_norm) (config_fields c)"
  by (auto simp: config_fields_def config_norm_def value_field_def map_field_def stored_map_def
      split: option.splits)

lemma to_gmembers_norm:
  "(\<forall>(k, v) \<in> set fs. to_gval (tree_of v) = Some (json_norm v)) \<Longrightarrow>
   to_gmembers (map (apsnd tree_of) fs) = Some (map (apsnd json_norm) fs)"
  by (induction fs) auto

lemma config_tree_plain:
  assumes "config_plain c"
  shows "wf_tree (config_tree c)"
    and "to_gval (config_tree c) = Some (GObj (fmap_of_list (rev (config_fields (config_norm c)))))"
proof -
  have *: "valid_utf8 k" "wf_tree (tree_of v)" "to_gval (tree_of v) = Some (json_norm v)"
    if "(k, v) \<in> set (config_fields c)" for k v
    using config_fields_plain [OF assms that] json_plain_tree [of v] by simp_all
  then show "wf_tree (config_tree c)"
    by (auto simp: config_tree_def wf_members_iff)
  have "to_gmembers (map (apsnd tree_of) (config_fields c)) = Some (map (apsnd json_norm) (config_fields c))"
    using * by (intro to_gmembers_norm) auto
  then show "to_gval (config_tree c) = Some (GObj (fmap_of_list (rev (config_fields (config_norm c)))))"
    by (simp add: config_tree_def config_fields_norm)
qed

lemma config_marshal_plain: "config_plain c \<Longrightarrow> config_marshal c = Some (print_json (config_tree c))"
  by (simp add: config_marshal_def config_plain_def json_plain_supported)

lemma canonicalConfig_plain:
  "config_plain c \<Longrightarrow> canonicalConfig c = Inr (GObj (fmap_of_list (rev (config_fields (config_norm c)))))"
  by (simp add: canonicalConfig_def config_marshal_plain json_unmarshal_def parse_print_json config_tree_plain)

lemma config_norm_idem [simp]: "config_norm (config_norm c) = config_norm c"
  by (simp add: config_norm_def stored_map_def)

lemma config_plain_norm: "config_plain c \<Longrightarrow> config_plain (config_norm c)"
  by (auto simp: config_plain_def config_norm_def stored_map_def plain_map_def json_plain_norm)

text \<open>The fields of a configuration can be read off its JSON object.\<close>

lemma config_fields_lookup:
  "map_of (rev (config_fields c)) ''spec'' = (if mc_spec c = GNil then None else Some (mc_spec c))"
  "map_of (rev (config_fields c)) ''data'' = (if mc_data c = GNil then None else Some (mc_data c))"
  "map_of (rev (config_fields c)) ''labels'' = map_option string_map (stored_map (mc_labels c))"
  "map_of (rev (config_fields c)) ''annotations'' = map_option string_map (stored_map (mc_annotations c))"
  by (auto simp: config_fields_def value_field_def map_field_def stored_map_def split: option.splits)

lemma config_object_inj:
  assumes "fmap_of_list (rev (config_fields (config_norm a))) = fmap_of_list (rev (config_fields (config_norm b)))"
  shows "config_norm a = config_norm b"
proof -
  have eq: "map_of (rev (config_fields (config_norm a))) k = map_of (rev (config_fields (config_norm b))) k" for k
    using assms by (metis fmlookup_of_list)
  have sm: "map_option string_map x = map_option string_map y \<longleftrightarrow> x = y" for x y
    by (cases x; cases y) auto
  have ss: "stored_map (stored_map x) = stored_map x" for x by (simp add: stored_map_def)
  show ?thesis
    using eq [of "''spec''"] eq [of "''data''"] eq [of "''labels''"] eq [of "''annotations''"]
    by (auto simp: config_fields_lookup config_norm_def sm ss split: if_splits)
qed

lemma configsEqual_plain:
  "config_plain a \<Longrightarrow> config_plain b \<Longrightarrow> configsEqual a b \<longleftrightarrow> config_norm a = config_norm b"
  by (auto simp: configsEqual_def canonicalConfig_plain dest: config_object_inj)

text \<open>Reading the struct.\<close>

lemma same_name_fields [simp]:
  "same_name ''spec'' ''spec''"
  "\<not> same_name ''data'' ''spec''" "same_name ''data'' ''data''"
  "\<not> same_name ''labels'' ''spec''" "\<not> same_name ''labels'' ''data''" "same_name ''labels'' ''labels''"
  "\<not> same_name ''annotations'' ''spec''" "\<not> same_name ''annotations'' ''data''"
  "\<not> same_name ''annotations'' ''labels''" "same_name ''annotations'' ''annotations''"
  by code_simp+

lemma decode_string_members_JStr:
  "\<exists>m'. decode_string_members (map (\<lambda>(k, v). (k, JStr v)) xs) m = Some m' \<and>
     fmlookup m' = fmlookup m ++ map_of (rev xs)"
proof (induction xs arbitrary: m)
  case (Cons x xs)
  obtain k v where x: "x = (k, v)" by (cases x)
  have "fmlookup (fmupd k v m) = fmlookup m ++ map_of [(k, v)]" by auto
  with Cons [of "fmupd k v m"] show ?case by (auto simp: x fun_upd_def)
qed simp

lemma decode_string_map_sorted:
  "decode_string_map None (tree_of (string_map m)) = Some (Some m)"
proof -
  let ?xs = "sorted_list_of_fmap m"
  have "sorted_list_of_fmap (fmmap tree_of (fmmap GStr m)) = map (\<lambda>(k, v). (k, JStr v)) ?xs"
    by (auto simp: sorted_list_of_fmap_def fmlookup_dom_iff)
  moreover obtain m' where m': "decode_string_members (map (\<lambda>(k, v). (k, JStr v)) ?xs) fmempty = Some m'"
    "fmlookup m' = fmlookup fmempty ++ map_of (rev ?xs)"
    using decode_string_members_JStr [of ?xs fmempty] by blast
  moreover have "m' = m"
  proof (rule fmap_eqI)
    fix k v
    have "fmlookup m' = map_of (rev ?xs)" using m'(2) by (auto simp: map_add_def split: option.split)
    moreover have "map_of (rev ?xs) k = Some v \<longleftrightarrow> (k, v) \<in> set ?xs"
      using map_of_eq_Some_iff [of "rev ?xs" k v] distinct_sorted_list_of_fmap [of m] by (simp flip: rev_map)
    ultimately show "fmlookup m' k = Some v \<longleftrightarrow> fmlookup m k = Some v"
      by (simp add: set_sorted_list_of_fmap)
  qed
  ultimately show ?thesis by (simp add: decode_string_map_def string_map_def)
qed

lemma decode_members_append:
  "decode_members (xs @ ys) c = Option.bind (decode_members xs c) (decode_members ys)"
  by (induction xs arbitrary: c) (auto split: option.splits)

lemma config_of_tree_plain:
  assumes "config_plain c"
  shows "config_of_tree (config_tree c) = Some (config_norm c)"
proof -
  have g: "json_plain v \<Longrightarrow> to_gval (tree_of v) = Some (json_norm v)" for v
    using json_plain_tree by blast
  have spec: "decode_members (map (apsnd tree_of) (value_field ''spec'' (mc_spec c))) c0 =
      Some (if mc_spec c = GNil then c0 else c0\<lparr>mc_spec := json_norm (mc_spec c)\<rparr>)" for c0
    using assms by (simp add: value_field_def decode_member_def g config_plain_def)
  have data: "decode_members (map (apsnd tree_of) (value_field ''data'' (mc_data c))) c0 =
      Some (if mc_data c = GNil then c0 else c0\<lparr>mc_data := json_norm (mc_data c)\<rparr>)" for c0
    using assms by (simp add: value_field_def decode_member_def g config_plain_def)
  have labels: "mc_labels c0 = None \<Longrightarrow>
      decode_members (map (apsnd tree_of) (map_field ''labels'' (mc_labels c))) c0 =
      Some (c0\<lparr>mc_labels := stored_map (mc_labels c)\<rparr>)" for c0
    by (auto simp: map_field_def decode_member_def stored_map_def decode_string_map_sorted split: option.splits)
  have anns: "mc_annotations c0 = None \<Longrightarrow>
      decode_members (map (apsnd tree_of) (map_field ''annotations'' (mc_annotations c))) c0 =
      Some (c0\<lparr>mc_annotations := stored_map (mc_annotations c)\<rparr>)" for c0
    by (auto simp: map_field_def decode_member_def stored_map_def decode_string_map_sorted split: option.splits)
  show ?thesis
    by (simp add: config_of_tree_def config_tree_def config_fields_def decode_members_append spec data
        labels anns empty_config_def config_norm_def)
qed

lemma config_unmarshal_marshal:
  assumes "config_plain c"
  shows "\<exists>b. config_marshal c = Some b \<and> config_unmarshal b = Some (config_norm c)"
  using assms
  by (simp add: config_marshal_plain config_unmarshal_def parse_print_json config_tree_plain config_of_tree_plain)

section \<open>The store of last applied configurations\<close>

text \<open>
  What the update logic needs of the store: an encoding that is read back up to a normal form, and a
  comparison that decides equality of normal forms.
\<close>

locale config_store =
  fixes enc :: "'c \<Rightarrow> 'b option"
    and dec :: "'b \<Rightarrow> 'c option"
    and same :: "'c \<Rightarrow> 'c \<Rightarrow> bool"
    and norm :: "'c \<Rightarrow> 'c"
    and good :: "'c \<Rightarrow> bool"
  assumes stored: "good c \<Longrightarrow> \<exists>b. enc c = Some b \<and> dec b = Some (norm c)"
    and compared: "good c \<Longrightarrow> good d \<Longrightarrow> same c d \<longleftrightarrow> norm c = norm d"
    and norm_good: "good c \<Longrightarrow> good (norm c)"
    and norm_idem: "norm (norm c) = norm c"
begin

lemma stored_same:
  "good c \<Longrightarrow> good d \<Longrightarrow> enc c = Some b \<Longrightarrow> dec b = Some s \<Longrightarrow> same s d \<longleftrightarrow> norm c = norm d"
  using stored [of c] compared [of "norm c" d] norm_good [of c] norm_idem [of c] by auto

lemma stored_own: "good c \<Longrightarrow> enc c = Some b \<Longrightarrow> \<exists>s. dec b = Some s \<and> same s c"
  using stored [of c] stored_same [of c c b] by auto

end

interpretation last_applied: config_store config_marshal config_unmarshal configsEqual config_norm config_plain
  by unfold_locales
    (simp_all add: config_unmarshal_marshal configsEqual_plain config_plain_norm)

section \<open>Properties\<close>

text \<open>C13: For configurations \<open>c\<close> and \<open>d\<close> whose numbers are whole and below 2^53 in magnitude and whose
  strings, keys included, are valid UTF-8 (\<open>config_plain\<close>), the comparison of a stored configuration with a
  desired one is exact: after storing \<open>c\<close> and reading it back, it is reported equal to \<open>d\<close> exactly when \<open>c\<close>
  and \<open>d\<close> agree up to the float64 form of numbers and up to empty maps of labels and annotations, which are
  not stored. So integers in such a manifest make no difference between what was stored and what is
  desired. Nothing is claimed for fractions, larger numbers or strings that are not UTF-8.\<close>

theorem last_applied_comparison:
  assumes "config_plain c" "config_plain d" "config_marshal c = Some b" "config_unmarshal b = Some s"
  shows "configsEqual s d \<longleftrightarrow> config_norm c = config_norm d"
  using assms by (rule last_applied.stored_same)

theorem last_applied_comparison_witness:
  "\<exists>b s. config_marshal (empty_config\<lparr>mc_spec := GArr [GInt 3]\<rparr>) = Some b \<and> config_unmarshal b = Some s \<and>
     configsEqual s (empty_config\<lparr>mc_spec := GArr [GInt 3]\<rparr>) \<and>
     \<not> configsEqual s (empty_config\<lparr>mc_spec := GArr [GBool True]\<rparr>)"
proof -
  let ?c = "empty_config\<lparr>mc_spec := GArr [GInt 3]\<rparr>" and ?d = "empty_config\<lparr>mc_spec := GArr [GBool True]\<rparr>"
  have c: "config_plain ?c" and d: "config_plain ?d"
    by (simp_all add: config_plain_def empty_config_def plain_map_def)
  obtain b where b: "config_marshal ?c = Some b" "config_unmarshal b = Some (config_norm ?c)"
    using config_unmarshal_marshal [OF c] by blast
  show ?thesis
    using b last_applied_comparison [OF c c b] last_applied_comparison [OF c d b]
    by (auto simp: config_norm_def)
qed

text \<open>Writing a configuration and reading it as a struct gives it back, with the numbers of \<open>spec\<close>
  and \<open>data\<close> as float64 and without empty maps.\<close>

theorem config_roundtrip:
  assumes "config_plain c"
  shows "\<exists>b. config_marshal c = Some b \<and> config_unmarshal b =
    Some (c\<lparr>mc_spec := json_norm (mc_spec c), mc_data := json_norm (mc_data c),
            mc_labels := stored_map (mc_labels c), mc_annotations := stored_map (mc_annotations c)\<rparr>)"
  using config_unmarshal_marshal [OF assms] by (cases c) (simp add: config_norm_def)

theorem config_roundtrip_witness:
  "\<exists>b. config_marshal (empty_config\<lparr>mc_data := GStr ''x''\<rparr>) = Some b \<and>
     config_unmarshal b = Some (empty_config\<lparr>mc_data := GStr ''x''\<rparr>)"
proof -
  have "config_plain (empty_config\<lparr>mc_data := GStr ''x''\<rparr>)"
    by (simp add: config_plain_def empty_config_def plain_map_def ascii_valid_utf8 ascii_def)
  from config_roundtrip [OF this] show ?thesis by (simp add: empty_config_def stored_map_def)
qed

end
