(* ===== verification/Apply.thy ===== *)
theory Apply
  imports Managed_Config Simulation
begin

text \<open>
  Bringing one child object to its desired state: \<open>shouldUpdateResource\<close> and
  \<open>updateWithConflictRetry\<close>. The first decides from the live object (\<open>needs_update\<close> is the pure
  part), the second writes the desired state onto it and retries conflicts at most three times.
\<close>

section \<open>The decision\<close>

definition needs_update :: "('w, 'v, 'c) env \<Rightarrow> unstructured \<Rightarrow> unstructured \<Rightarrow> string + bool" where
  "needs_update K existing obj =
     (case getLastAppliedConfig existing of
        Inl e \<Rightarrow> Inl (''failed to get last applied config from existing resource: '' @ config_error_text K e)
      | Inr None \<Rightarrow> Inr True
      | Inr (Some lastApplied) \<Rightarrow> Inr (\<not> configsEqual lastApplied (config_of obj)))"

definition shouldUpdateResource :: "('w, 'v, 'c) env \<Rightarrow> unstructured \<Rightarrow> ('w, string + bool) prog" where
  "shouldUpdateResource K obj = do {
     r \<leftarrow> do_get K (u_gvk obj) (u_namespace obj) (u_name obj);
     State_Monad.return (case r of
       Inl err \<Rightarrow>
         if is_not_found err then Inr True
         else Inl (''failed to get existing resource: '' @ error_text err)
     | Inr existing \<Rightarrow> needs_update K existing obj)
   }"

section \<open>The write\<close>

definition max_update_retries :: nat where
  "max_update_retries = 3"

text \<open>The loop of \<open>updateWithConflictRetry\<close> with the number of attempts left; the result is the text
  of the error, if any.\<close>

primrec update_attempts ::
    "('w, 'v, 'c) env \<Rightarrow> nat \<Rightarrow> string option \<Rightarrow> unstructured \<Rightarrow> unstructured \<Rightarrow> ('w, string option) prog" where
  "update_attempts K 0 lastErr existing desired = State_Monad.return lastErr"
| "update_attempts K (Suc n) lastErr existing desired =
     (case setLastAppliedConfig (applyDesiredState existing desired) of
        Inl e \<Rightarrow> State_Monad.return (Some (config_error_text K e))
      | Inr updated \<Rightarrow> do {
          r \<leftarrow> do_update K updated;
          case r of
            None \<Rightarrow> State_Monad.return None
          | Some err \<Rightarrow>
              if \<not> is_conflict err then State_Monad.return (Some (error_text err))
              else if n = 0 then State_Monad.return (Some (error_text err))
              else do {
                g \<leftarrow> do_get K (u_gvk desired) (u_namespace desired) (u_name desired);
                case g of
                  Inl getErr \<Rightarrow> State_Monad.return (Some (error_text getErr))
                | Inr fresh \<Rightarrow> update_attempts K n (Some (error_text err)) fresh desired
              }
        })"

definition updateWithConflictRetry ::
    "('w, 'v, 'c) env \<Rightarrow> unstructured \<Rightarrow> unstructured \<Rightarrow> ('w, string option) prog" where
  "updateWithConflictRetry K existing desired = update_attempts K max_update_retries None existing desired"

section \<open>The overlay\<close>

lemma fmlookup_merge:
  "fmlookup (merge_annotations d e) k =
     (case fmlookup d k of Some v \<Rightarrow> if v = [] then None else Some v | None \<Rightarrow> fmlookup e k)"
  by (auto simp: merge_annotations_def fmlookup_filter fmlookup_dom_iff split: option.splits)

lemma merge_annotations_idem: "merge_annotations d (merge_annotations d e) = merge_annotations d e"
  by (rule fmap_ext) (auto simp: fmlookup_merge split: option.splits)

lemma applyDesiredState_fields:
  "obj_field (applyDesiredState e d) ''spec'' = obj_field d ''spec''"
  "obj_field (applyDesiredState e d) ''data'' = obj_field d ''data''"
  "name \<noteq> ''spec'' \<Longrightarrow> name \<noteq> ''data'' \<Longrightarrow> obj_field (applyDesiredState e d) name = obj_field e name"
  "u_labels (applyDesiredState e d) = u_labels d"
  "u_annotations (applyDesiredState e d) =
     Some (merge_annotations (case u_annotations d of None \<Rightarrow> fmempty | Some m \<Rightarrow> m)
       (case u_annotations e of None \<Rightarrow> fmempty | Some m \<Rightarrow> m))"
  by (simp_all add: applyDesiredState_def obj_field_def Let_def)

lemma applyDesiredState_identity [simp]:
  "u_gvk (applyDesiredState e d) = u_gvk e" "u_namespace (applyDesiredState e d) = u_namespace e"
  "u_name (applyDesiredState e d) = u_name e"
  "u_resourceVersion (applyDesiredState e d) = u_resourceVersion e" "u_meta (applyDesiredState e d) = u_meta e"
  by (simp_all add: applyDesiredState_def Let_def)

lemma members_apply_idem:
  "members (applyDesiredState (applyDesiredState e d) d) = members (applyDesiredState e d)"
  by (rule fmap_ext) (simp add: applyDesiredState_def Let_def)

lemma unstructured_eqI:
  "u_gvk a = u_gvk b \<Longrightarrow> u_namespace a = u_namespace b \<Longrightarrow> u_name a = u_name b \<Longrightarrow>
   u_resourceVersion a = u_resourceVersion b \<Longrightarrow> u_labels a = u_labels b \<Longrightarrow>
   u_annotations a = u_annotations b \<Longrightarrow> u_meta a = u_meta b \<Longrightarrow> members a = members b \<Longrightarrow>
   a = (b :: unstructured)"
  by (cases a; cases b) simp

section \<open>What is stored and what is compared\<close>

text \<open>The configuration the update path stores differs from the desired one in the annotations
  alone: it has the merged ones.\<close>

lemma config_of_apply:
  "config_of (applyDesiredState e d) =
     (config_of d)\<lparr>mc_annotations := map_option (fmdrop LastAppliedConfigAnnotation)
        (u_annotations (applyDesiredState e d))\<rparr>"
  by (simp add: config_of_def applyDesiredState_fields)

lemma setLastAppliedConfig_read:
  assumes "config_plain (config_of u)" "setLastAppliedConfig u = Inr v"
  shows "getLastAppliedConfig v = Inr (Some (config_norm (config_of u)))"
    and "config_norm (config_of v) = config_norm (config_of u)"
proof -
  obtain b where b: "config_marshal (config_of u) = Some b"
    "config_unmarshal b = Some (config_norm (config_of u))"
    using config_unmarshal_marshal [OF assms(1)] by blast
  let ?a = "case u_annotations u of None \<Rightarrow> fmempty | Some m \<Rightarrow> m"
  have v: "v = u\<lparr>u_annotations := Some (fmupd LastAppliedConfigAnnotation b ?a)\<rparr>"
    using assms(2) b by (simp add: setLastAppliedConfig_def)
  show "getLastAppliedConfig v = Inr (Some (config_norm (config_of u)))"
    using b by (simp add: v getLastAppliedConfig_def)
  have "fmdrop LastAppliedConfigAnnotation (fmupd LastAppliedConfigAnnotation b m) =
      fmdrop LastAppliedConfigAnnotation m" for m
    by (rule fmap_ext) simp
  then show "config_norm (config_of v) = config_norm (config_of u)"
    by (cases "u_annotations u") (simp_all add: v config_of_def config_norm_def obj_field_def stored_map_def)
qed

lemma setLastAppliedConfig_total:
  "config_plain (config_of u) \<Longrightarrow> \<exists>v. setLastAppliedConfig u = Inr v"
  using config_unmarshal_marshal by (fastforce simp: setLastAppliedConfig_def Let_def)

lemma needs_update_stored:
  assumes "config_plain (config_of u)" "setLastAppliedConfig u = Inr v" "config_plain (config_of d)"
  shows "needs_update K v d = Inr (config_norm (config_of u) \<noteq> config_norm (config_of d))"
proof -
  have "configsEqual (config_norm (config_of u)) (config_of d) \<longleftrightarrow>
      config_norm (config_of u) = config_norm (config_of d)"
    using configsEqual_plain [OF config_plain_norm [OF assms(1)] assms(3)] by simp
  then show ?thesis
    using setLastAppliedConfig_read [OF assms(1,2)] by (simp add: needs_update_def)
qed

section \<open>The calls of an update\<close>

definition is_update :: "event \<Rightarrow> bool" where
  "is_update e = (case e of Updated _ _ \<Rightarrow> True | _ \<Rightarrow> False)"

text \<open>An event of the update of an object to \<open>d\<close>: a read of it or a write that carries its state.\<close>

definition update_event :: "unstructured \<Rightarrow> event \<Rightarrow> bool" where
  "update_event d e =
     (case e of
        Updated u _ \<Rightarrow>
          obj_field u ''spec'' = obj_field d ''spec'' \<and> obj_field u ''data'' = obj_field d ''data'' \<and>
          u_labels u = u_labels d
      | Got g ns n _ \<Rightarrow> g = u_gvk d \<and> ns = u_namespace d \<and> n = u_name d
      | _ \<Rightarrow> False)"

lemma setLastAppliedConfig_keeps:
  "setLastAppliedConfig u = Inr v \<Longrightarrow>
   obj_field v name = obj_field u name \<and> u_labels v = u_labels u \<and> u_gvk v = u_gvk u \<and>
   u_namespace v = u_namespace u \<and> u_name v = u_name u \<and> u_resourceVersion v = u_resourceVersion u"
  by (auto simp: setLastAppliedConfig_def obj_field_def Let_def split: option.splits)

lemma update_event_write:
  assumes "setLastAppliedConfig (applyDesiredState existing desired) = Inr u"
  shows "update_event desired (Updated u r)"
  using setLastAppliedConfig_keeps [OF assms, of "''spec''"] setLastAppliedConfig_keeps [OF assms, of "''data''"]
  by (simp add: update_event_def applyDesiredState_fields)

lemma update_event_read: "update_event d (Got (u_gvk d) (u_namespace d) (u_name d) r)"
  by (simp add: update_event_def)

lemma emits_update_attempts:
  "emits (update_event desired) (update_attempts K n lastErr existing desired)"
proof (induction n arbitrary: lastErr existing)
  case (Suc n)
  show ?case
    unfolding update_attempts.simps
    by (intro emits_intros Suc update_event_write update_event_read) simp_all
qed (simp add: emits_return)

lemma update_attempts_bound:
  "length (filter is_update (history (run_after (update_attempts K n lastErr existing desired) s)))
     \<le> length (filter is_update (history s)) + n"
proof (induction n arbitrary: lastErr existing s)
  case (Suc n)
  show ?case
  proof (cases "setLastAppliedConfig (applyDesiredState existing desired)")
    case (Inr u)
    let ?s1 = "run_after (do_update K u) s"
    let ?s2 = "run_after (do_get K (u_gvk desired) (u_namespace desired) (u_name desired)) ?s1"
    have "length (filter is_update (history ?s1)) = length (filter is_update (history s)) + 1"
      "length (filter is_update (history ?s2)) = length (filter is_update (history s)) + 1"
      by (simp_all add: do_update_def do_get_def is_update_def)
    with Suc.IH [of _ _ ?s2] show ?thesis
      by (force simp: Inr split: option.splits sum.splits)
  qed simp
qed simp

text \<open>Success means that a write went through.\<close>

lemma update_attempts_None:
  "0 < n \<or> lastErr \<noteq> None \<Longrightarrow> run_result (update_attempts K n lastErr existing desired) s = None \<Longrightarrow>
   \<exists>u es. history (run_after (update_attempts K n lastErr existing desired) s) = history s @ es @ [Updated u None]"
proof (induction n arbitrary: lastErr existing s)
  case (Suc n)
  then obtain u where u: "setLastAppliedConfig (applyDesiredState existing desired) = Inr u"
    by (cases "setLastAppliedConfig (applyDesiredState existing desired)") auto
  let ?s1 = "run_after (do_update K u) s"
  let ?get = "do_get K (u_gvk desired) (u_namespace desired) (u_name desired)"
  show ?case
  proof (cases "run_result (do_update K u) s")
    case None
    then show ?thesis by (auto simp: u do_update_def intro!: exI [of _ u])
  next
    case (Some err)
    then have c: "is_conflict err" "n \<noteq> 0" using Suc.prems by (auto simp: u split: if_splits)
    then obtain fresh where fresh: "run_result ?get ?s1 = Inr fresh"
      using Suc.prems Some by (cases "run_result ?get ?s1") (auto simp: u)
    have "run_result (update_attempts K n (Some (error_text err)) fresh desired) (run_after ?get ?s1) = None"
      using Suc.prems Some c fresh by (simp add: u)
    from Suc.IH [OF _ this] obtain v es where
      "history (run_after (update_attempts K n (Some (error_text err)) fresh desired) (run_after ?get ?s1)) =
        history (run_after ?get ?s1) @ es @ [Updated v None]" by blast
    moreover have "history (run_after ?get ?s1) = history s @
        [Updated u (Some err), Got (u_gvk desired) (u_namespace desired) (u_name desired) (failure (run_result ?get ?s1))]"
      using Some by (simp add: do_get_def do_update_def)
    ultimately show ?thesis using Some c fresh by (auto simp: u)
  qed
qed simp

section \<open>When the update path settles\<close>

definition annotations_of :: "unstructured \<Rightarrow> string smap" where
  "annotations_of u = (case u_annotations u of None \<Rightarrow> fmempty | Some m \<Rightarrow> m)"

text \<open>An annotation that keeps the stored configuration away from the desired one: set on the live
  object only, or desired with an empty value.\<close>

definition unsettled :: "unstructured \<Rightarrow> unstructured \<Rightarrow> string \<Rightarrow> bool" where
  "unsettled existing desired k \<longleftrightarrow> k \<noteq> LastAppliedConfigAnnotation \<and>
     (fmlookup (annotations_of desired) k = Some [] \<or>
      (fmlookup (annotations_of desired) k = None \<and> fmlookup (annotations_of existing) k \<noteq> None))"

lemma fmdrop_eq_iff: "fmdrop x a = fmdrop x b \<longleftrightarrow> (\<forall>k. k \<noteq> x \<longrightarrow> fmlookup a k = fmlookup b k)"
proof
  assume e: "fmdrop x a = fmdrop x b"
  show "\<forall>k. k \<noteq> x \<longrightarrow> fmlookup a k = fmlookup b k"
  proof (intro allI impI)
    fix k assume "k \<noteq> x"
    then show "fmlookup a k = fmlookup b k" using arg_cong [OF e, of "\<lambda>m. fmlookup m k"] by simp
  qed
qed (auto intro: fmap_ext)

lemma stored_annotations_eq:
  "stored_map (Some (fmdrop x a)) = stored_map (map_option (fmdrop x) b) \<longleftrightarrow>
     fmdrop x a = fmdrop x (case b of None \<Rightarrow> fmempty | Some m \<Rightarrow> m)"
  by (cases b) (auto simp: stored_map_def)

lemma settled_iff:
  "config_norm (config_of (applyDesiredState e d)) = config_norm (config_of d) \<longleftrightarrow> (\<forall>k. \<not> unsettled e d k)"
proof -
  have m: "mc_annotations (config_of (applyDesiredState e d)) =
      Some (fmdrop LastAppliedConfigAnnotation (merge_annotations (annotations_of d) (annotations_of e)))"
    by (simp add: config_of_def applyDesiredState_fields annotations_of_def)
  have "config_norm (config_of (applyDesiredState e d)) = config_norm (config_of d) \<longleftrightarrow>
      stored_map (mc_annotations (config_of (applyDesiredState e d))) = stored_map (mc_annotations (config_of d))"
    by (simp add: config_of_apply config_norm_def)
  also have "\<dots> \<longleftrightarrow> fmdrop LastAppliedConfigAnnotation (merge_annotations (annotations_of d) (annotations_of e)) =
      fmdrop LastAppliedConfigAnnotation (annotations_of d)"
    unfolding m by (simp add: config_of_def stored_annotations_eq annotations_of_def)
  also have "\<dots> \<longleftrightarrow> (\<forall>k. \<not> unsettled e d k)"
    unfolding fmdrop_eq_iff unsettled_def
    by (rule iff_allI) (auto simp: fmlookup_merge split: option.splits)
  finally show ?thesis .
qed

lemma config_plain_apply:
  assumes "config_plain (config_of d)" "plain_map (Some (annotations_of d))" "plain_map (Some (annotations_of e))"
  shows "config_plain (config_of (applyDesiredState e d))"
proof -
  have "valid_utf8 k \<and> valid_utf8 v" if "fmlookup (merge_annotations (annotations_of d) (annotations_of e)) k = Some v" for k v
    using that assms(2,3) by (auto simp: fmlookup_merge plain_map_def split: option.splits if_splits)
  then have "plain_map (Some (fmdrop LastAppliedConfigAnnotation (merge_annotations (annotations_of d) (annotations_of e))))"
    by (auto simp: plain_map_def split: if_splits)
  with assms(1) show ?thesis
    by (simp add: config_plain_def config_of_apply applyDesiredState_fields annotations_of_def)
qed

section \<open>Properties\<close>

text \<open>C14: When the desired configuration and the one that is written have whole numbers below 2^53 and valid
  UTF-8 strings only (\<open>config_plain\<close>): after an update wrote the desired state onto the live object and
  recorded its configuration, the next comparison finds the object up to date exactly when no annotation
  is unsettled. An annotation other than the tracking one is unsettled when it is set on the live object
  and not desired, or when it is desired with an empty value. So the update path settles exactly for objects
  on which neither occurs; with an annotation of either kind the object is found out of date again.\<close>

theorem update_settles_iff:
  assumes "config_plain (config_of d)" "config_plain (config_of (applyDesiredState e d))"
    and "setLastAppliedConfig (applyDesiredState e d) = Inr u"
  shows "needs_update K u d = Inr (\<exists>k. unsettled e d k)"
  using needs_update_stored [OF assms(2,3,1), of K] settled_iff [of e d] by simp

definition example_object :: "string smap option \<Rightarrow> unstructured" where
  "example_object annotations =
     \<lparr>u_gvk = GVK ''apps'' ''v1'' ''Deployment'', u_namespace = ''default'', u_name = ''web'',
      u_resourceVersion = ''7'', u_labels = None, u_annotations = annotations, u_meta = fmempty,
      members = fmupd ''spec'' (GInt 3) fmempty\<rparr>"

lemma example_object_plain:
  assumes "plain_map a"
  shows "config_plain (config_of (example_object a))" "plain_map (Some (annotations_of (example_object a)))"
  using assms
  by (auto simp: config_plain_def config_of_def example_object_def obj_field_def plain_map_def annotations_of_def
      split: option.splits if_splits)

lemma example_annotations_plain: "plain_map None" "plain_map (Some (fmupd ''a'' ''b'' fmempty))"
    "plain_map (Some (fmupd ''a'' [] fmempty))"
  by (auto simp: plain_map_def ascii_valid_utf8 ascii_def split: if_splits)

theorem update_settles_iff_witness:
  "\<exists>u v. setLastAppliedConfig (applyDesiredState (example_object None) (example_object None)) = Inr u \<and>
     needs_update sim_env u (example_object None) = Inr False \<and>
     setLastAppliedConfig (applyDesiredState (example_object (Some (fmupd ''a'' ''b'' fmempty))) (example_object None)) = Inr v \<and>
     needs_update sim_env v (example_object None) = Inr True"
proof -
  let ?d = "example_object None" and ?f = "example_object (Some (fmupd ''a'' ''b'' fmempty))"
  note plain = example_object_plain [OF example_annotations_plain(1)] example_object_plain [OF example_annotations_plain(2)]
  have d: "config_plain (config_of ?d)" by (rule plain)
  have e: "config_plain (config_of (applyDesiredState ?d ?d))" "config_plain (config_of (applyDesiredState ?f ?d))"
    by (rule config_plain_apply plain)+
  obtain u v where u: "setLastAppliedConfig (applyDesiredState ?d ?d) = Inr u"
    and v: "setLastAppliedConfig (applyDesiredState ?f ?d) = Inr v"
    using setLastAppliedConfig_total [OF e(1)] setLastAppliedConfig_total [OF e(2)] by blast
  have "\<not> unsettled ?d ?d k" for k by (simp add: unsettled_def annotations_of_def example_object_def)
  moreover have "unsettled ?f ?d ''a''"
    by (simp add: unsettled_def annotations_of_def example_object_def LastAppliedConfigAnnotation_def)
  ultimately show ?thesis
    using u v update_settles_iff [OF d e(1) u, of sim_env] update_settles_iff [OF d e(2) v, of sim_env]
    by (intro exI [of _ u] exI [of _ v]) auto
qed

text \<open>An object created from a rendered manifest is up to date on the next pass, whatever its labels
  and annotations, because the create path stores the configuration of the manifest itself.\<close>

theorem create_settles:
  assumes "config_plain (config_of obj)" "setLastAppliedConfig obj = Inr u"
  shows "needs_update K u obj = Inr False"
  using needs_update_stored [OF assms assms(1), of K] by simp

theorem create_settles_witness:
  "\<exists>u. setLastAppliedConfig (example_object (Some (fmupd ''a'' [] fmempty))) = Inr u \<and>
     needs_update sim_env u (example_object (Some (fmupd ''a'' [] fmempty))) = Inr False"
proof -
  let ?d = "example_object (Some (fmupd ''a'' [] fmempty))"
  have d: "config_plain (config_of ?d)" by (rule example_object_plain [OF example_annotations_plain(3)])
  then obtain u where "setLastAppliedConfig ?d = Inr u" using setLastAppliedConfig_total by blast
  then show ?thesis using create_settles [OF d] by blast
qed

text \<open>The overlay takes \<open>spec\<close>, \<open>data\<close> and the labels from the desired object and everything else
  from the live one; annotations are merged, an empty desired value removes the key. Applying it twice,
  as the code does before the first write, is applying it once.\<close>

theorem applyDesiredState_spec:
  "applyDesiredState (applyDesiredState e d) d = applyDesiredState e d \<and>
   obj_field (applyDesiredState e d) name =
     (if name \<in> {''spec'', ''data''} then obj_field d name else obj_field e name) \<and>
   u_labels (applyDesiredState e d) = u_labels d \<and>
   u_resourceVersion (applyDesiredState e d) = u_resourceVersion e \<and>
   (\<exists>m. u_annotations (applyDesiredState e d) = Some m \<and>
     (\<forall>k. fmlookup m k = (case fmlookup (annotations_of d) k of
        Some v \<Rightarrow> if v = [] then None else Some v | None \<Rightarrow> fmlookup (annotations_of e) k)))"
proof -
  have "applyDesiredState (applyDesiredState e d) d = applyDesiredState e d"
    by (rule unstructured_eqI)
      (simp_all add: applyDesiredState_fields members_apply_idem merge_annotations_idem)
  then show ?thesis
    by (simp add: applyDesiredState_fields fmlookup_merge flip: annotations_of_def)
qed

text \<open>C15: An update issues at most three writes; every call it makes is a read of the desired object or a
  write that carries its \<open>spec\<close>, \<open>data\<close> and labels; and it reports success only after a write that went
  through.\<close>

theorem update_retry_bounded:
  "\<exists>es. history (run_after (updateWithConflictRetry K existing desired) s) = history s @ es \<and>
     list_all (update_event desired) es \<and> length (filter is_update es) \<le> 3 \<and>
     (run_result (updateWithConflictRetry K existing desired) s = None \<longrightarrow>
        (\<exists>u es'. es = es' @ [Updated u None]))"
proof -
  let ?m = "updateWithConflictRetry K existing desired"
  obtain es where es: "history (run_after ?m s) = history s @ es" "list_all (update_event desired) es"
    using emitsD [OF emits_update_attempts] unfolding updateWithConflictRetry_def by blast
  have "length (filter is_update (history (run_after ?m s))) \<le> length (filter is_update (history s)) + 3"
    using update_attempts_bound unfolding updateWithConflictRetry_def max_update_retries_def by blast
  moreover have "\<exists>u es'. es = es' @ [Updated u None]" if "run_result ?m s = None"
    using update_attempts_None [of max_update_retries None K existing desired s] that es(1)
    by (auto simp: updateWithConflictRetry_def max_update_retries_def)
  ultimately show ?thesis using es by auto
qed

theorem update_retry_bounded_witness:
  "\<exists>u es. history (run_after (updateWithConflictRetry sim_env (example_object None) (example_object None)) sim_state) =
     es @ [Updated u None] \<and> length (filter is_update es) \<le> 2"
proof -
  let ?m = "updateWithConflictRetry sim_env (example_object None) (example_object None)"
  have "config_plain (config_of (applyDesiredState (example_object None) (example_object None)))"
    by (rule config_plain_apply example_object_plain example_annotations_plain)+
  then obtain u where u: "setLastAppliedConfig (applyDesiredState (example_object None) (example_object None)) = Inr u"
    using setLastAppliedConfig_total by blast
  have "run_result ?m sim_state = None"
    by (simp add: updateWithConflictRetry_def max_update_retries_def numeral_3_eq_3 u do_update_def sim_env_def)
  moreover have "history sim_state = []" by (simp add: sim_state_def)
  ultimately show ?thesis
    using update_retry_bounded [of sim_env "example_object None" "example_object None" sim_state]
    by (auto simp: is_update_def)
qed

end
