(* ===== verification/Reconcile.thy ===== *)
theory Reconcile
  imports Children Apply
begin

text \<open>
  \<open>Reconcile\<close> of \<open>databasequeryresource_controller.go\<close>, cut into the stretches the code has: fetching
  the resource, the deletion branch with the finalizer, the deferred status write, the skipped pass,
  the full pass with its row loop, pruning, the status updates in the database and the final status.
  Log output is left out. The local variable \<open>dbqr\<close> is the component \<open>cr\<close> of the state.
\<close>

section \<open>Results\<close>

text \<open>\<open>ctrl.Result\<close> with its \<open>RequeueAfter\<close>, and the returned error.\<close>

record reconcile_result =
  requeue_after :: duration
  result_error :: "api_error option"

definition requeue :: "duration \<Rightarrow> reconcile_result" where
  "requeue t = \<lparr>requeue_after = t, result_error = None\<rparr>"

definition failed :: "api_error \<Rightarrow> reconcile_result" where
  "failed e = \<lparr>requeue_after = 0, result_error = Some e\<rparr>"

lemma result_simps [simp]:
  "requeue_after (requeue t) = t" "result_error (requeue t) = None"
  "requeue_after (failed e) = 0" "result_error (failed e) = Some e"
  by (simp_all add: requeue_def failed_def)

definition DatabaseQueryFinalizer :: string where
  "DatabaseQueryFinalizer = ''konnektr.io/databasequeryresource-finalizer''"

definition do_get_cr :: "('w, 'v, 'c) env \<Rightarrow> string \<Rightarrow> string \<Rightarrow> ('w, api_error + dbqr) prog" where
  "do_get_cr K ns n = call (get_cr K ns n) (\<lambda>r. Got_CR (failure r = None))"

definition do_update_cr :: "('w, 'v, 'c) env \<Rightarrow> ('w, api_error option) prog" where
  "do_update_cr K = do { d \<leftarrow> read_cr; call (update_cr K d) (Updated_CR d) }"

section \<open>Deletion\<close>

primrec delete_all :: "('w, 'v, 'c) env \<Rightarrow> unstructured list \<Rightarrow> ('w, api_error option) prog" where
  "delete_all K [] = State_Monad.return None"
| "delete_all K (obj # objs) = do {
     r \<leftarrow> do_delete K obj;
     case r of
       None \<Rightarrow> delete_all K objs
     | Some err \<Rightarrow> if is_not_found err then delete_all K objs else State_Monad.return (Some err)
   }"

definition deleting :: "dbqr \<Rightarrow> bool" where
  "deleting d = (case d_deletionTimestamp d of None \<Rightarrow> False | Some t \<Rightarrow> \<not> time_is_zero t)"

definition handle_deletion :: "('w, 'v, 'c) env \<Rightarrow> ('w, reconcile_result) prog" where
  "handle_deletion K = do {
     d \<leftarrow> read_cr;
     if DatabaseQueryFinalizer \<in> set (d_finalizers d) then do {
       children \<leftarrow> collectAllChildResources K;
       case children of
         Inl err \<Rightarrow> State_Monad.return (failed err)
       | Inr allChildResources \<Rightarrow> do {
           e \<leftarrow> delete_all K allChildResources;
           case e of
             Some err \<Rightarrow> State_Monad.return (failed err)
           | None \<Rightarrow> do {
               _ \<leftarrow> write_cr (\<lambda>d. remove_finalizer K d DatabaseQueryFinalizer);
               u \<leftarrow> do_update_cr K;
               State_Monad.return (case u of Some err \<Rightarrow> failed err | None \<Rightarrow> requeue 0)
             }
         }
     }
     else State_Monad.return (requeue 0)
   }"

section \<open>The deferred status write\<close>

definition max_status_retries :: nat where
  "max_status_retries = 3"

primrec write_status ::
    "('w, 'v, 'c) env \<Rightarrow> string \<Rightarrow> string \<Rightarrow> nat \<Rightarrow> dbqr_status \<Rightarrow> dbqr \<Rightarrow> ('w, unit) prog" where
  "write_status K ns n 0 desired latest = State_Monad.return ()"
| "write_status K ns n (Suc k) desired latest = do {
     r \<leftarrow> call (update_status K (latest\<lparr>status := desired\<rparr>))
            (\<lambda>r. Updated_Status (latest\<lparr>status := desired\<rparr>) (failure r));
     case r of
       Inr _ \<Rightarrow> State_Monad.return ()
     | Inl err \<Rightarrow>
         if is_conflict err then do {
           g \<leftarrow> do_get_cr K ns n;
           case g of
             Inl _ \<Rightarrow> State_Monad.return ()
           | Inr latest' \<Rightarrow> write_status K ns n k desired latest'
         }
         else State_Monad.return ()
   }"

definition desired_status :: "dbqr \<Rightarrow> dbqr_status" where
  "desired_status d = (status d)\<lparr>observedGeneration := d_generation d\<rparr>"

definition deferred_status_update :: "('w, 'v, 'c) env \<Rightarrow> string \<Rightarrow> string \<Rightarrow> ('w, unit) prog" where
  "deferred_status_update K ns n = do {
     g \<leftarrow> do_get_cr K ns n;
     case g of
       Inl _ \<Rightarrow> State_Monad.return ()
     | Inr latest \<Rightarrow> do {
         d \<leftarrow> read_cr;
         if status latest = desired_status d then State_Monad.return ()
         else write_status K ns n max_status_retries (desired_status d) latest
       }
   }"

section \<open>The skipped pass\<close>

definition skipped_pass :: "('w, 'v, 'c) env \<Rightarrow> duration \<Rightarrow> ('w, reconcile_result) prog" where
  "skipped_pass K nextCheckInterval = do {
     d \<leftarrow> read_cr;
     _ \<leftarrow> (if managed_list (status d) = [] then State_Monad.return ()
          else do {
            managedChildren \<leftarrow> collect_managed_children K;
            if managedChildren = [] then State_Monad.return ()
            else do {
              config \<leftarrow> getDBConfig K d;
              case config of
                Inl _ \<Rightarrow> State_Monad.return ()
              | Inr dbConfig \<Rightarrow> do {
                  updated \<leftarrow> updateStatusForChildResources K managedChildren dbConfig;
                  if updated > 0 then do {
                    t \<leftarrow> now K;
                    _ \<leftarrow> write_cr (\<lambda>d. d\<lparr>status := (status d)\<lparr>lastReconcileTime := Some t\<rparr>\<rparr>);
                    _ \<leftarrow> do_update_status K;
                    State_Monad.return ()
                  }
                  else State_Monad.return ()
                }
            }
          });
     State_Monad.return (requeue nextCheckInterval)
   }"

section \<open>One row\<close>

text \<open>\<open>fmt\<close>'s \<open>%v\<close> of a row: its entries in the order of the keys.\<close>

definition show_row :: "('w, 'v, 'c) env \<Rightarrow> 'v smap \<Rightarrow> string" where
  "show_row K row =
     ''map['' @ join '' '' (map (\<lambda>(k, v). k @ '':'' @ show_value K v) (sorted_list_of_fmap row)) @ '']''"

definition gvk_string :: "gvk \<Rightarrow> string" where
  "gvk_string g = gvk_group g @ ''/'' @ gvk_version g @ '', Kind='' @ gvk_kind g"

definition object_path :: "unstructured \<Rightarrow> string" where
  "object_path obj = u_namespace obj @ ''/'' @ u_name obj"

definition render_row :: "('w, 'v, 'c) env \<Rightarrow> 'v smap \<Rightarrow> ('w, string + unstructured) prog" where
  "render_row K row = do {
     d \<leftarrow> read_cr;
     r \<leftarrow> execute_template K ''resourceTemplate'' (resource_template (spec d)) (Row_Data row);
     State_Monad.return (case r of
       Inl e \<Rightarrow> Inl (''template render error for row data '' @ show_row K row @ '': '' @ e)
     | Inr rendered \<Rightarrow>
         (case yaml_decode K rendered of
            Inl e \<Rightarrow> Inl (''decode error for template output '' @ [CHR 0x27] @ rendered @ [CHR 0x27] @ '': '' @ e)
          | Inr obj \<Rightarrow> Inr obj))
   }"

text \<open>The namespace, the managed-by label and the owner reference.\<close>

definition own_object :: "('w, 'v, 'c) env \<Rightarrow> dbqr \<Rightarrow> bool \<Rightarrow> unstructured \<Rightarrow> string + unstructured" where
  "own_object K d isNamespaced obj =
     (let obj1 = (if isNamespaced \<and> u_namespace obj = [] then obj\<lparr>u_namespace := d_namespace d\<rparr> else obj);
          labels = (case u_labels obj1 of None \<Rightarrow> fmempty | Some m \<Rightarrow> m);
          obj2 = obj1\<lparr>u_labels := Some (fmupd ManagedByLabel (d_name d) labels)\<rparr>
      in if isNamespaced \<and> u_namespace obj2 = d_namespace d then
           (case set_controller_reference K d obj2 of
              Inl e \<Rightarrow> Inl (''owner ref error for '' @ object_path obj2 @ '': '' @ e)
            | Inr obj3 \<Rightarrow> Inr obj3)
         else Inr obj2)"

definition place_object :: "('w, 'v, 'c) env \<Rightarrow> unstructured \<Rightarrow> ('w, string + unstructured) prog" where
  "place_object K obj = do {
     d \<leftarrow> read_cr;
     mapping \<leftarrow> call (scope_name K (u_gvk obj)) (\<lambda>_. Mapped (u_gvk obj));
     State_Monad.return (case mapping of
       Inl e \<Rightarrow> Inl (''RESTMapping error for '' @ gvk_string (u_gvk obj) @ '': '' @ e)
     | Inr scope \<Rightarrow> own_object K d (scope = ''namespace'') obj)
   }"

definition create_object :: "('w, 'v, 'c) env \<Rightarrow> unstructured \<Rightarrow> ('w, string + string) prog" where
  "create_object K obj =
     (case setLastAppliedConfig obj of
        Inl e \<Rightarrow> State_Monad.return
          (Inl (''last applied config error for '' @ object_path obj @ '': '' @ config_error_text K e))
      | Inr obj1 \<Rightarrow> do {
          r \<leftarrow> do_apply K obj1;
          State_Monad.return (case r of
            Inl err \<Rightarrow> Inl (''create error for '' @ object_path obj1 @ '': '' @ error_text err)
          | Inr obj2 \<Rightarrow> Inr (getObjectKey obj2))
        })"

text \<open>Compare, then create or update; the result is the key of the object.\<close>

definition apply_row_object :: "('w, 'v, 'c) env \<Rightarrow> unstructured \<Rightarrow> ('w, string + string) prog" where
  "apply_row_object K obj = do {
     updateNeeded \<leftarrow> shouldUpdateResource K obj;
     case updateNeeded of
       Inl e \<Rightarrow> State_Monad.return (Inl (''update check error for '' @ object_path obj @ '': '' @ e))
     | Inr needed \<Rightarrow>
         if \<not> needed then State_Monad.return (Inr (getObjectKey obj))
         else do {
           g \<leftarrow> do_get K (u_gvk obj) (u_namespace obj) (u_name obj);
           case g of
             Inl err \<Rightarrow>
               if is_not_found err then create_object K obj
               else State_Monad.return (Inl (''get error for '' @ object_path obj @ '': '' @ error_text err))
           | Inr existing \<Rightarrow> do {
               e \<leftarrow> updateWithConflictRetry K (applyDesiredState existing obj) obj;
               State_Monad.return (case e of
                 Some err \<Rightarrow> Inl (''update error for '' @ object_path obj @ '': '' @ err)
               | None \<Rightarrow> Inr (getObjectKey obj))
             }
         }
   }"

definition process_row :: "('w, 'v, 'c) env \<Rightarrow> 'v smap \<Rightarrow> ('w, string + string) prog" where
  "process_row K row = do {
     r \<leftarrow> render_row K row;
     case r of
       Inl e \<Rightarrow> State_Monad.return (Inl e)
     | Inr obj \<Rightarrow> do {
         p \<leftarrow> place_object K obj;
         case p of
           Inl e \<Rightarrow> State_Monad.return (Inl e)
         | Inr obj1 \<Rightarrow> apply_row_object K obj1
       }
   }"

text \<open>The row loop: \<open>managedResourceKeys\<close> and \<open>rowProcessingErrors\<close>.\<close>

primrec process_rows :: "('w, 'v, 'c) env \<Rightarrow> 'v smap list \<Rightarrow> ('w, string fset \<times> string list) prog" where
  "process_rows K [] = State_Monad.return (fempty, [])"
| "process_rows K (row # rows) = do {
     r \<leftarrow> process_row K row;
     (keys, errors) \<leftarrow> process_rows K rows;
     State_Monad.return (case r of
       Inl e \<Rightarrow> (keys, e # errors)
     | Inr key \<Rightarrow> (finsert key keys, errors))
   }"

section \<open>The end of a full pass\<close>

definition prune_phase :: "('w, 'v, 'c) env \<Rightarrow> string fset \<Rightarrow> ('w, string list) prog" where
  "prune_phase K managedResourceKeys = do {
     d \<leftarrow> read_cr;
     if GetPrune (spec d) then do {
       r \<leftarrow> collectAllChildResources K;
       pruneStaleResources K managedResourceKeys (case r of Inl _ \<Rightarrow> [] | Inr objs \<Rightarrow> objs)
     }
     else State_Monad.return []
   }"

text \<open>\<open>msg[:maxLen-3]\<close> needs \<open>maxLen\<close> to be at least 3; the only call has 1024.\<close>

definition truncateError :: "string \<Rightarrow> nat \<Rightarrow> string" where
  "truncateError msg maxLen = (if length msg > maxLen then take (maxLen - 3) msg @ ''...'' else msg)"

text \<open>The new list of managed resources, and the resource versions of those only.\<close>

definition record_managed :: "string fset \<Rightarrow> dbqr \<Rightarrow> dbqr" where
  "record_managed keys d =
     d\<lparr>status := (status d)
       \<lparr>managedResources := Some (sorted_list_of_fset keys),
        resourceVersions := map_option (fmfilter (\<lambda>k. k |\<in>| keys)) (resourceVersions (status d))\<rparr>\<rparr>"

definition finish_pass ::
    "('w, 'v, 'c) env \<Rightarrow> duration \<Rightarrow> string fset \<Rightarrow> string list \<Rightarrow> ('w, reconcile_result) prog" where
  "finish_pass K poll managedResourceKeys finalErrors = do {
     _ \<leftarrow> write_cr (record_managed managedResourceKeys);
     _ \<leftarrow> (if finalErrors \<noteq> [] then
            setCondition K ConditionReconciled ''False'' ''ProcessingError''
              (truncateError (join ''; '' finalErrors) 1024)
          else do {
            t \<leftarrow> now K;
            _ \<leftarrow> write_cr (\<lambda>d. d\<lparr>status := (status d)\<lparr>lastPollTime := Some t, lastReconcileTime := Some t\<rparr>\<rparr>);
            setCondition K ConditionReconciled ''True'' ''Success''
              ''Successfully queried DB and reconciled resources''
          });
     d \<leftarrow> read_cr;
     State_Monad.return (requeue (nextRequeueInterval d poll))
   }"

section \<open>The full pass\<close>

definition retry_interval :: "duration \<Rightarrow> duration" where
  "retry_interval poll = min poll (30 * second)"

definition manage_rows ::
    "('w, 'v, 'c) env \<Rightarrow> duration \<Rightarrow> db_config \<Rightarrow> 'v smap list \<Rightarrow> ('w, reconcile_result) prog" where
  "manage_rows K poll dbConfig rows = do {
     (keys, rowErrors) \<leftarrow> process_rows K rows;
     pruneErrors \<leftarrow> prune_phase K keys;
     managedChildren \<leftarrow> collect_managed_children K;
     _ \<leftarrow> updateStatusForChildResources K managedChildren dbConfig;
     finish_pass K poll keys (rowErrors @ pruneErrors)
   }"

definition connected_pass ::
    "('w, 'v, 'c) env \<Rightarrow> duration \<Rightarrow> db_config \<Rightarrow> ('w, 'v) db_client \<Rightarrow> ('w, reconcile_result) prog" where
  "connected_pass K poll dbConfig dbClient = do {
     _ \<leftarrow> setCondition K ConditionDBConnected ''True'' ''Connected'' ''Successfully connected to the database'';
     d \<leftarrow> read_cr;
     r \<leftarrow> client_read dbClient (query (spec d));
     case r of
       Inl err \<Rightarrow> do {
         _ \<leftarrow> setCondition K ConditionReconciled ''False'' ''QueryFailed'' (''Failed to execute query: '' @ err);
         State_Monad.return (requeue poll)
       }
     | Inr (results, columnNames) \<Rightarrow>
         (case template_parse K ''resourceTemplate'' (resource_template (spec d)) of
            Some err \<Rightarrow> do {
              _ \<leftarrow> setCondition K ConditionReconciled ''False'' ''TemplateError'' (''Invalid template: '' @ err);
              State_Monad.return (requeue 0)
            }
          | None \<Rightarrow> manage_rows K poll dbConfig results)
   }"

definition full_pass :: "('w, 'v, 'c) env \<Rightarrow> duration \<Rightarrow> ('w, reconcile_result) prog" where
  "full_pass K poll = do {
     d \<leftarrow> read_cr;
     config \<leftarrow> getDBConfig K d;
     case config of
       Inl err \<Rightarrow> do {
         _ \<leftarrow> setCondition K ConditionDBConnected ''False'' ''SecretError'' err;
         _ \<leftarrow> setCondition K ConditionReconciled ''False'' ''DBConnectionFailed'' ''Failed to get DB configuration'';
         State_Monad.return (requeue (retry_interval poll))
       }
     | Inr dbConfig \<Rightarrow> do {
         client \<leftarrow> open_client K d dbConfig;
         case client of
           Inl err \<Rightarrow> do {
             _ \<leftarrow> setCondition K ConditionDBConnected ''False'' ''DBClientError'' err;
             _ \<leftarrow> setCondition K ConditionReconciled ''False'' ''DBConnectionFailed'' ''Failed to create/connect DB client'';
             State_Monad.return (requeue (retry_interval poll))
           }
         | Inr dbClient \<Rightarrow> do {
             res \<leftarrow> connected_pass K poll dbConfig dbClient;
             _ \<leftarrow> client_close dbClient;
             State_Monad.return res
           }
       }
   }"

section \<open>Reconcile\<close>

definition init_conditions :: "dbqr \<Rightarrow> dbqr" where
  "init_conditions d =
     (case conditions (status d) of
        None \<Rightarrow> d\<lparr>status := (status d)\<lparr>conditions := Some []\<rparr>\<rparr>
      | Some _ \<Rightarrow> d)"

definition reconcile_live :: "('w, 'v, 'c) env \<Rightarrow> ('w, reconcile_result) prog" where
  "reconcile_live K = do {
     d \<leftarrow> read_cr;
     case ParseDuration (pollInterval (spec d)) of
       Inl err \<Rightarrow> do {
         _ \<leftarrow> setCondition K ConditionReconciled ''False'' ''InvalidSpec'' (''Invalid pollInterval: '' @ err);
         State_Monad.return (requeue 0)
       }
     | Inr poll \<Rightarrow> do {
         (shouldFullReconcile, nextCheckInterval) \<leftarrow> shouldReconcile K poll;
         if \<not> shouldFullReconcile then skipped_pass K nextCheckInterval else full_pass K poll
       }
   }"

definition Reconcile :: "('w, 'v, 'c) env \<Rightarrow> string \<Rightarrow> string \<Rightarrow> ('w, reconcile_result) prog" where
  "Reconcile K ns n = do {
     g \<leftarrow> do_get_cr K ns n;
     case g of
       Inl err \<Rightarrow> State_Monad.return (if is_not_found err then requeue 0 else failed err)
     | Inr d \<Rightarrow> do {
         _ \<leftarrow> write_cr (\<lambda>_. d);
         if deleting d then handle_deletion K
         else do {
           _ \<leftarrow> write_cr init_conditions;
           res \<leftarrow> reconcile_live K;
           _ \<leftarrow> deferred_status_update K ns n;
           State_Monad.return res
         }
       }
   }"

end
