(* ===== verification/Policies.thy ===== *)
theory Policies
  imports Reconcile
begin

text \<open>
  Which calls the parts of a pass make. A policy is a predicate on events; the locale
  \<open>call_policy\<close> assumes that reads, database calls and status writes are allowed and proves once that
  everything but the row loop, pruning and finalizing keeps to it; \<open>row_policy\<close> adds the writes of
  children and proves the row loop. The policies of the properties are the interpretations.
\<close>

section \<open>Policies\<close>

locale call_policy =
  fixes A :: "event \<Rightarrow> bool"
  assumes allow_got: "A (Got g ns n r)"
    and allow_cr: "A (Got_CR b)"
    and allow_secret: "A (Got_Secret ns n)"
    and allow_clock: "A (Clock_Read t)"
    and allow_connected: "A (Connected ty b)"
    and allow_query: "A (Read_Query q b)"
    and allow_exec: "A (Executed q b)"
    and allow_closed: "A Closed"
    and allow_rendered: "A (Rendered n)"
    and allow_status: "A (Updated_Status d r')"
begin

lemma emits_should: "emits A (shouldReconcile K poll)"
  by (rule emits_mono [OF emits_shouldReconcile])
    (auto simp: detection_event_def allow_secret allow_connected allow_query allow_closed allow_clock
      allow_status split: event.splits)

lemma emits_status_updates: "emits A (updateStatusForChildResources K objs config)"
  by (rule emits_mono [OF emits_updateStatusForChildResources])
    (auto simp: status_event_def allow_connected allow_exec allow_closed allow_clock allow_rendered
      split: event.splits)

lemma emits_collect: "emits A (collect_managed_children K)"
  unfolding collect_managed_children_def by (intro emits_intros emits_collect_objects allow_got)

lemma emits_collect_all: "emits A (collectAllChildResources K)"
  unfolding collectAllChildResources_def by (intro emits_intros emits_collect_objects allow_got)

lemma emits_condition: "emits A (setCondition K t st r m)"
  by (intro emits_intros allow_clock)

lemma emits_config: "emits A (getDBConfig K d)"
  by (intro emits_intros allow_secret)

lemma emits_skipped: "emits A (skipped_pass K next)"
  unfolding skipped_pass_def
  by (intro emits_intros emits_collect emits_config emits_status_updates allow_clock allow_status)

lemma emits_get_cr: "emits A (do_get_cr K ns n)"
  by (simp add: do_get_cr_def emits_call allow_cr)

lemma emits_write_status: "emits A (write_status K ns n k desired latest)"
proof (induction k arbitrary: latest)
  case (Suc k)
  show ?case
    unfolding write_status.simps by (intro emits_intros emits_call emits_get_cr Suc allow_status)
qed (simp add: emits_return)

lemma emits_deferred: "emits A (deferred_status_update K ns n)"
  unfolding deferred_status_update_def by (intro emits_intros emits_get_cr emits_write_status)

lemma emits_finish: "emits A (finish_pass K poll keys errors)"
  unfolding finish_pass_def by (intro emits_intros allow_clock)

end

locale row_policy = call_policy +
  assumes allow_mapped: "A (Mapped g)"
    and allow_updated: "A (Updated u r)"
    and allow_applied: "A (Applied u r)"
begin

lemma emits_update: "emits A (updateWithConflictRetry K existing desired)"
  unfolding updateWithConflictRetry_def
  by (rule emits_mono [OF emits_update_attempts])
    (auto simp: update_event_def allow_got allow_updated split: event.splits)

lemma emits_row: "emits A (process_row K row)"
  unfolding process_row_def render_row_def place_object_def apply_row_object_def shouldUpdateResource_def
    create_object_def
  by (intro emits_intros emits_call emits_update allow_rendered allow_mapped allow_got allow_applied)

lemma emits_rows: "emits A (process_rows K rows)"
  by (induction rows) (auto intro!: emits_intros emits_row)

text \<open>A full pass, when its pruning keeps to the policy.\<close>

lemma emits_full_pass:
  assumes "\<And>keys. emits A (prune_phase K keys)"
  shows "emits A (full_pass K poll)"
  unfolding full_pass_def connected_pass_def manage_rows_def
  by (intro emits_intros emits_config emits_rows emits_collect emits_status_updates emits_finish assms
      allow_connected allow_closed allow_clock allow_query)

lemma emits_live:
  assumes "\<And>keys. emits A (prune_phase K keys)"
  shows "emits A (reconcile_live K)"
  unfolding reconcile_live_def
  by (intro emits_intros emits_should emits_skipped emits_full_pass assms allow_clock)

end

section \<open>The policies of the properties\<close>

text \<open>No call that changes a child or the resource itself (its status apart).\<close>

definition no_child_write :: "event \<Rightarrow> bool" where
  "no_child_write e =
     (case e of Updated _ _ \<Rightarrow> False | Applied _ _ \<Rightarrow> False | Deleted _ _ \<Rightarrow> False
      | Updated_CR _ _ \<Rightarrow> False | _ \<Rightarrow> True)"

interpretation quiet: call_policy no_child_write
  by unfold_locales (simp_all add: no_child_write_def)

text \<open>No deletion and no write of the resource itself.\<close>

definition no_delete :: "event \<Rightarrow> bool" where
  "no_delete e = (case e of Deleted _ _ \<Rightarrow> False | Updated_CR _ _ \<Rightarrow> False | _ \<Rightarrow> True)"

interpretation keeping: row_policy no_delete
  by unfold_locales (simp_all add: no_delete_def)

text \<open>The finalizer is never touched.\<close>

definition no_finalize :: "event \<Rightarrow> bool" where
  "no_finalize e = (case e of Updated_CR _ _ \<Rightarrow> False | _ \<Rightarrow> True)"

interpretation live: row_policy no_finalize
  by unfold_locales (simp_all add: no_finalize_def)

lemma emits_prune_no_finalize: "emits no_finalize (prune_phase K keys)"
  unfolding prune_phase_def
  by (intro emits_intros live.emits_collect_all emits_pruneStaleResources) (simp_all add: no_finalize_def)

lemma emits_live_no_finalize: "emits no_finalize (reconcile_live K)"
  by (rule live.emits_live [OF emits_prune_no_finalize])

section \<open>What stays of the resource\<close>

text \<open>The parts that do not touch \<open>cr\<close>.\<close>

lemma collect_objects_cr [simp]: "cr (run_after (collect_objects K parts ids) s) = cr s"
  by (induction ids arbitrary: s) (auto split: option.split prod.split)

lemma collect_cr [simp]:
  "cr (run_after (collectAllChildResources K) s) = cr s"
  "cr (run_after (collect_managed_children K) s) = cr s"
  by (simp_all add: collectAllChildResources_def collect_managed_children_def)

lemma shouldUpdateResource_cr [simp]: "cr (run_after (shouldUpdateResource K obj) s) = cr s"
  by (simp add: shouldUpdateResource_def)

lemma update_attempts_cr [simp]: "cr (run_after (update_attempts K n e existing desired) s) = cr s"
  by (induction n arbitrary: e existing s) (auto split: sum.split option.split)

lemma create_object_cr [simp]: "cr (run_after (create_object K obj) s) = cr s"
  by (simp add: create_object_def split: sum.split)

lemma apply_row_object_cr [simp]: "cr (run_after (apply_row_object K obj) s) = cr s"
  by (auto simp: apply_row_object_def updateWithConflictRetry_def split: sum.split)

lemma execute_template_cr [simp]: "cr (run_after (execute_template K name t d) s) = cr s"
  by (simp add: execute_template_def)

lemma process_row_cr [simp]: "cr (run_after (process_row K row) s) = cr s"
  by (auto simp: process_row_def render_row_def place_object_def split: sum.split)

lemma process_rows_cr [simp]: "cr (run_after (process_rows K rows) s) = cr s"
  by (induction rows arbitrary: s) (auto split: prod.split)

lemma close_clients_cr [simp]: "cr (run_after (close_clients cs) s) = cr s"
  by (induction cs arbitrary: s) auto

lemma delete_all_cr [simp]: "cr (run_after (delete_all K objs) s) = cr s"
  by (induction objs arbitrary: s) (auto split: option.split)

text \<open>A projection of \<open>cr\<close> that only \<open>f\<close> may change. \<open>keeps\<close> of \<open>fixes_part g v\<close> says a program
  leaves the part \<open>g\<close> of the resource at \<open>v\<close>.\<close>

definition fixes_part :: "(dbqr \<Rightarrow> 'b) \<Rightarrow> 'b \<Rightarrow> 'w rs \<Rightarrow> bool" where
  "fixes_part g v s \<longleftrightarrow> g (cr s) = v"

lemma keeps_fixes_cr: "(\<And>s. cr (run_after m s) = cr s) \<Longrightarrow> keeps (fixes_part g v) m"
  by (simp add: keeps_def fixes_part_def)

lemma keeps_fixes_read [keeps_intros]: "keeps (fixes_part g v) read_cr"
  by (simp add: keeps_def fixes_part_def)

lemma keeps_fixes_write: "(\<And>d. g (f d) = g d) \<Longrightarrow> keeps (fixes_part g v) (write_cr f)"
  by (simp add: keeps_def fixes_part_def)

lemma keeps_call_part [keeps_intros]: "keeps (fixes_part g v) (call f ev)"
  by (simp add: keeps_def fixes_part_def)

lemma keeps_calls_part [keeps_intros]:
  "keeps (fixes_part g v) (open_client K d config)" "keeps (fixes_part g v) (client_read c q)"
  "keeps (fixes_part g v) (client_exec c q)" "keeps (fixes_part g v) (client_close c)"
  "keeps (fixes_part g v) (now K)" "keeps (fixes_part g v) (do_get K gv ns n)"
  "keeps (fixes_part g v) (do_delete K u)" "keeps (fixes_part g v) (getDBConfig K d)"
  "keeps (fixes_part g v) (execute_template K name t data)" "keeps (fixes_part g v) (close_clients cs)"
  "keeps (fixes_part g v) (collectAllChildResources K)" "keeps (fixes_part g v) (collect_managed_children K)"
  "keeps (fixes_part g v) (process_rows K rows)"
  by (simp_all add: keeps_fixes_cr)

end
