(* ===== verification/Pass_Facts.thy ===== *)
theory Pass_Facts
  imports Policies
begin

text \<open>
  What the parts of a pass do to the history and to the status: which objects pruning deletes, when
  the finalizer goes, which fields of the status a step leaves alone, and the result each branch
  returns.
\<close>

section \<open>Deleted objects\<close>

definition deleted_object :: "event \<Rightarrow> unstructured option" where
  "deleted_object e = (case e of Deleted u _ \<Rightarrow> Some u | _ \<Rightarrow> None)"

definition deleted_objects :: "event list \<Rightarrow> unstructured list" where
  "deleted_objects es = List.map_filter deleted_object es"

lemma map_filter_append: "List.map_filter f (xs @ ys) = List.map_filter f xs @ List.map_filter f ys"
  by (induction xs) (auto simp: map_filter_simps split: option.split)

lemma deleted_objects_simps [simp]:
  "deleted_objects [] = []" "deleted_objects (es @ fs) = deleted_objects es @ deleted_objects fs"
  "deleted_objects (Deleted u r # es) = u # deleted_objects es"
  "deleted_objects (Got g ns n x # es) = deleted_objects es"
  by (simp_all add: deleted_objects_def deleted_object_def map_filter_simps map_filter_append)

lemma deleted_objects_no_delete: "list_all no_delete es \<Longrightarrow> deleted_objects es = []"
  by (induction es) (auto simp: deleted_objects_def deleted_object_def no_delete_def map_filter_simps
      split: event.splits)

lemma deleted_objects_emits:
  "emits no_delete m \<Longrightarrow> deleted_objects (history (run_after m s)) = deleted_objects (history s)"
  using emitsD [of no_delete m s] deleted_objects_no_delete by fastforce

lemma deleted_pruneStaleResources:
  "deleted_objects (history (run_after (pruneStaleResources K keys objs) s)) =
     deleted_objects (history s) @ filter (\<lambda>u. getObjectKey u |\<notin>| keys) objs"
proof (induction objs arbitrary: s)
  case (Cons u objs)
  have d: "history (run_after (do_delete K u) s) = history s @ [Deleted u (run_result (do_delete K u) s)]" for s :: "'a rs"
    by (simp add: do_delete_def)
  show ?case
  proof (cases "getObjectKey u |\<in>| keys")
    case True
    with Cons show ?thesis by simp
  next
    case False
    then show ?thesis
      using d [of s] by (cases "run_result (do_delete K u) s") (simp_all add: Let_def Cons)
  qed
qed simp

definition collected :: "('w, 'v, 'c) env \<Rightarrow> 'w rs \<Rightarrow> unstructured list" where
  "collected K s = run_result (collect_objects K key_parts (managed_list (status (cr s)))) s"

lemma deleted_prune_phase:
  "deleted_objects (history (run_after (prune_phase K keys) s)) =
     deleted_objects (history s) @
     (if GetPrune (spec (cr s)) then filter (\<lambda>u. getObjectKey u |\<notin>| keys) (collected K s) else [])"
  by (simp add: prune_phase_def deleted_pruneStaleResources collectAllChildResources_def collected_def
      deleted_objects_emits [OF keeping.emits_collect_all, unfolded collectAllChildResources_def, simplified])

text \<open>The API returns the object that was asked for.\<close>

definition get_faithful :: "('w, 'v, 'c) env \<Rightarrow> bool" where
  "get_faithful K \<longleftrightarrow> (\<forall>g ns n w u w'. get_object K g ns n w = (Inr u, w') \<longrightarrow>
     u_gvk u = g \<and> u_namespace u = ns \<and> u_name u = n)"

lemma do_get_faithful:
  "get_faithful K \<Longrightarrow> run_result (do_get K g ns n) s = Inr u \<Longrightarrow>
   u_gvk u = g \<and> u_namespace u = ns \<and> u_name u = n"
  unfolding get_faithful_def do_get_def by (metis call_simps(1) prod.collapse)

lemma collect_objects_managed:
  assumes "get_faithful K"
  shows "u \<in> set (run_result (collect_objects K key_parts ids) s) \<Longrightarrow> getObjectKey u \<in> set ids"
proof (induction ids arbitrary: s)
  case (Cons i ids)
  show ?case
  proof (cases "key_parts i")
    case None
    with Cons show ?thesis by auto
  next
    case (Some p)
    then obtain g ns n where p: "key_parts i = Some (g, ns, n)" by (metis prod_cases3)
    let ?r = "run_result (do_get K g ns n) s"
    have "u \<in> set (run_result (collect_objects K key_parts ids) (run_after (do_get K g ns n) s)) \<or> ?r = Inr u"
      using Cons.prems p by (cases ?r) auto
    then show ?thesis
    proof
      assume "?r = Inr u"
      then show ?thesis
        using do_get_faithful [OF assms] key_parts_Some(1) [OF p] by (simp add: getObjectKey_def)
    qed (use Cons.IH in auto)
  qed
qed simp

section \<open>The finalizer\<close>

definition gone :: "api_error option \<Rightarrow> bool" where
  "gone r = (case r of None \<Rightarrow> True | Some e \<Rightarrow> is_not_found e)"

lemma delete_all_None:
  "run_result (delete_all K objs) s = None \<Longrightarrow>
   \<exists>rs. length rs = length objs \<and> list_all gone rs \<and>
     history (run_after (delete_all K objs) s) = history s @ map2 Deleted objs rs"
proof (induction objs arbitrary: s)
  case (Cons u objs)
  let ?r = "run_result (do_delete K u) s" and ?s = "run_after (do_delete K u) s"
  have g: "gone ?r" and n: "run_result (delete_all K objs) ?s = None"
    using Cons.prems by (auto simp: gone_def split: option.splits if_splits)
  from Cons.IH [OF n] obtain rs where rs: "length rs = length objs" "list_all gone rs"
    "history (run_after (delete_all K objs) ?s) = history ?s @ map2 Deleted objs rs" by blast
  have after: "run_after (delete_all K (u # objs)) s = run_after (delete_all K objs) ?s"
    using Cons.prems by (auto split: option.splits if_splits)
  have h: "history ?s = history s @ [Deleted u ?r]" by (simp add: do_delete_def)
  have "history (run_after (delete_all K (u # objs)) s) = history s @ map2 Deleted (u # objs) (?r # rs)"
    unfolding after rs(3) h by simp
  with rs g show ?case by (intro exI [of _ "?r # rs"]) (simp del: delete_all.simps)
qed simp

lemma emits_delete_all: "emits no_finalize (delete_all K objs)"
  by (induction objs) (auto intro!: emits_intros simp: no_finalize_def)

definition finalizing :: "event \<Rightarrow> bool" where
  "finalizing e = (case e of Updated_CR _ _ \<Rightarrow> True | _ \<Rightarrow> False)"

lemma no_finalize_not [simp]: "no_finalize e \<longleftrightarrow> \<not> finalizing e"
  by (simp add: no_finalize_def finalizing_def split: event.split)

section \<open>Parts of the status\<close>

text \<open>A part of the status that neither conditions nor resource versions belong to.\<close>

definition bookkeeping_free :: "(dbqr \<Rightarrow> 'b) \<Rightarrow> bool" where
  "bookkeeping_free g \<longleftrightarrow>
     (\<forall>d c v. g (d\<lparr>status := (status d)\<lparr>conditions := c\<rparr>\<rparr>) = g d \<and>
              g (d\<lparr>status := (status d)\<lparr>resourceVersions := v\<rparr>\<rparr>) = g d)"

lemma keeps_setCondition:
  "bookkeeping_free g \<Longrightarrow> keeps (fixes_part g v) (setCondition K t st r m)"
  unfolding setCondition_def by (intro keeps_intros keeps_fixes_write) (simp add: bookkeeping_free_def)

lemma keeps_status_update_child:
  "bookkeeping_free g \<Longrightarrow> keeps (fixes_part g v) (status_update_child K config obj)"
  unfolding status_update_child_def Let_def
  by (intro keeps_intros keeps_setCondition keeps_fixes_write)
    (simp_all add: bookkeeping_free_def record_version_def)

lemma keeps_status_update_children:
  "bookkeeping_free g \<Longrightarrow> keeps (fixes_part g v) (status_update_children K config objs)"
  by (induction objs) (auto intro!: keeps_intros keeps_status_update_child)

lemma keeps_updateStatus:
  "bookkeeping_free g \<Longrightarrow> keeps (fixes_part g v) (updateStatusForChildResources K objs config)"
  unfolding updateStatusForChildResources_def
  by (intro keeps_intros keeps_status_update_children keeps_fixes_write)
    (simp_all add: bookkeeping_free_def init_versions_def)

lemma keeps_pruneStale:
  "bookkeeping_free g \<Longrightarrow> keeps (fixes_part g v) (pruneStaleResources K keys objs)"
  by (induction objs)
    (auto intro!: keeps_intros keeps_fixes_write simp: Let_def bookkeeping_free_def forget_version_def)

lemma keeps_prune_phase:
  "bookkeeping_free g \<Longrightarrow> keeps (fixes_part g v) (prune_phase K keys)"
  unfolding prune_phase_def by (intro keeps_intros keeps_pruneStale)

lemma bookkeeping_free_parts:
  "bookkeeping_free spec" "bookkeeping_free (\<lambda>d. managedResources (status d))"
  "bookkeeping_free (\<lambda>d. lastPollTime (status d))" "bookkeeping_free d_name" "bookkeeping_free d_namespace"
  by (simp_all add: bookkeeping_free_def)

lemma fixes_partD:
  "keeps (fixes_part g (g (cr s))) m \<Longrightarrow> g (cr (run_after m s)) = g (cr s)"
  by (simp add: keeps_def fixes_part_def)

lemma part_kept:
  assumes "bookkeeping_free g"
  shows "g (cr (run_after (setCondition K t st r m) s)) = g (cr s)"
    and "g (cr (run_after (prune_phase K keys) s)) = g (cr s)"
    and "g (cr (run_after (updateStatusForChildResources K objs config) s)) = g (cr s)"
  by (rule fixes_partD [OF keeps_setCondition [OF assms]] fixes_partD [OF keeps_prune_phase [OF assms]]
      fixes_partD [OF keeps_updateStatus [OF assms]])+

lemmas kept_parts [simp] =
  part_kept [OF bookkeeping_free_parts(1)] part_kept [OF bookkeeping_free_parts(2)]
  part_kept [OF bookkeeping_free_parts(3)] part_kept [OF bookkeeping_free_parts(4)]
  part_kept [OF bookkeeping_free_parts(5)]

lemma versions_kept [simp]:
  "resourceVersions (status (cr (run_after (setCondition K t st r m) s))) = resourceVersions (status (cr s))"
  by (simp add: setCondition_def)

section \<open>The end of a pass\<close>

lemma record_managed_parts [simp]:
  "managedResources (status (record_managed keys d)) = Some (sorted_list_of_fset keys)"
  "lastPollTime (status (record_managed keys d)) = lastPollTime (status d)"
  "spec (record_managed keys d) = spec d"
  "resourceVersions (status (record_managed keys d)) =
     map_option (fmfilter (\<lambda>k. k |\<in>| keys)) (resourceVersions (status d))"
  by (simp_all add: record_managed_def)

lemma finish_pass_facts:
  "managedResources (status (cr (run_after (finish_pass K poll keys errors) s))) = Some (sorted_list_of_fset keys)"
  "resourceVersions (status (cr (run_after (finish_pass K poll keys errors) s))) =
     map_option (fmfilter (\<lambda>k. k |\<in>| keys)) (resourceVersions (status (cr s)))"
  "errors \<noteq> [] \<Longrightarrow> lastPollTime (status (cr (run_after (finish_pass K poll keys errors) s))) = lastPollTime (status (cr s))"
  "spec (cr (run_after (finish_pass K poll keys errors) s)) = spec (cr s)"
  "run_result (finish_pass K poll keys errors) s = requeue (nextRequeueInterval (cr (run_after (finish_pass K poll keys errors) s)) poll)"
  by (simp_all add: finish_pass_def)

lemma nextRequeueInterval_spec: "spec d = spec d' \<Longrightarrow> nextRequeueInterval d p = nextRequeueInterval d' p"
  by (simp add: nextRequeueInterval_def)

lemma manage_rows_facts:
  fixes poll config
  assumes "run_result (process_rows K rows) s = (keys, rowErrors)"
  defines "s' \<equiv> run_after (manage_rows K poll config rows) s"
  shows "managedResources (status (cr s')) = Some (sorted_list_of_fset keys)"
    and "\<exists>m. resourceVersions (status (cr s')) = map_option (fmfilter (\<lambda>k. k |\<in>| keys)) m"
    and "rowErrors \<noteq> [] \<Longrightarrow> lastPollTime (status (cr s')) = lastPollTime (status (cr s))"
    and "spec (cr s') = spec (cr s)"
    and "run_result (manage_rows K poll config rows) s = requeue (nextRequeueInterval (cr s) poll)"
proof -
  let ?s1 = "run_after (process_rows K rows) s"
  let ?s2 = "run_after (prune_phase K keys) ?s1"
  let ?kids = "run_result (collect_managed_children K) ?s2"
  let ?s3 = "run_after (updateStatusForChildResources K ?kids config) (run_after (collect_managed_children K) ?s2)"
  let ?errs = "rowErrors @ run_result (prune_phase K keys) ?s1"
  have s': "s' = run_after (finish_pass K poll keys ?errs) ?s3"
    by (simp add: s'_def manage_rows_def assms(1))
  have res: "run_result (manage_rows K poll config rows) s = run_result (finish_pass K poll keys ?errs) ?s3"
    by (simp add: manage_rows_def assms(1))
  show "managedResources (status (cr s')) = Some (sorted_list_of_fset keys)"
    by (simp add: s' finish_pass_facts)
  show "\<exists>m. resourceVersions (status (cr s')) = map_option (fmfilter (\<lambda>k. k |\<in>| keys)) m"
    unfolding s' finish_pass_facts(2) by blast
  show "lastPollTime (status (cr s')) = lastPollTime (status (cr s))" if "rowErrors \<noteq> []"
    using that by (simp add: s' finish_pass_facts)
  show sp: "spec (cr s') = spec (cr s)"
    by (simp add: s' finish_pass_facts)
  have "run_result (manage_rows K poll config rows) s = requeue (nextRequeueInterval (cr s') poll)"
    unfolding res s' by (rule finish_pass_facts(5))
  then show "run_result (manage_rows K poll config rows) s = requeue (nextRequeueInterval (cr s) poll)"
    using nextRequeueInterval_spec [OF sp] by simp
qed

end
