(* ===== verification/Pass_Results.thy ===== *)
theory Pass_Results
  imports Pass_Facts
begin

text \<open>
  What a pass returns: a judgement on results, and the requeue interval of each branch of
  \<open>Reconcile\<close>; what a row contributes; what the deferred status write does.
\<close>

section \<open>Results\<close>

definition returns :: "('a \<Rightarrow> bool) \<Rightarrow> ('w, 'a) prog \<Rightarrow> bool" where
  "returns Q m \<longleftrightarrow> (\<forall>s. Q (run_result m s))"

named_theorems returns_intros \<open>syntax directed rules of the results a program returns\<close>

lemma returns_return [returns_intros]: "Q x \<Longrightarrow> returns Q (State_Monad.return x)"
  by (simp add: returns_def)

lemma returns_bind [returns_intros]: "(\<And>a. returns Q (f a)) \<Longrightarrow> returns Q (State_Monad.bind m f)"
  by (simp add: returns_def)

lemma returns_if [returns_intros]:
  "(b \<Longrightarrow> returns Q m) \<Longrightarrow> (\<not> b \<Longrightarrow> returns Q n) \<Longrightarrow> returns Q (if b then m else n)"
  by simp

lemma returns_option [returns_intros]:
  "(x = None \<Longrightarrow> returns Q m) \<Longrightarrow> (\<And>y. x = Some y \<Longrightarrow> returns Q (f y)) \<Longrightarrow>
   returns Q (case x of None \<Rightarrow> m | Some y \<Rightarrow> f y)"
  by (cases x) simp_all

lemma returns_sum [returns_intros]:
  "(\<And>e. x = Inl e \<Longrightarrow> returns Q (f e)) \<Longrightarrow> (\<And>y. x = Inr y \<Longrightarrow> returns Q (g y)) \<Longrightarrow>
   returns Q (case x of Inl e \<Rightarrow> f e | Inr y \<Rightarrow> g y)"
  by (cases x) simp_all

lemma returns_prod [returns_intros]:
  "(\<And>a b. x = (a, b) \<Longrightarrow> returns Q (f a b)) \<Longrightarrow> returns Q (case x of (a, b) \<Rightarrow> f a b)"
  by (cases x) simp

lemma returnsD: "returns Q m \<Longrightarrow> Q (run_result m s)"
  by (simp add: returns_def)

text \<open>No branch of a live pass returns an error.\<close>

lemma returns_connected_pass: "returns (\<lambda>r. result_error r = None) (connected_pass K poll config db)"
  unfolding connected_pass_def manage_rows_def finish_pass_def by (intro returns_intros) simp_all

text \<open>Closing the client keeps the result.\<close>

lemma returns_then: "returns Q m \<Longrightarrow> returns Q (State_Monad.bind m (\<lambda>r. State_Monad.bind n (\<lambda>_. State_Monad.return r)))"
  by (simp add: returns_def)

lemma returns_full_pass: "returns (\<lambda>r. result_error r = None) (full_pass K poll)"
  unfolding full_pass_def
proof (rule returns_bind, rule returns_bind, rule returns_sum; (rule returns_bind, rule returns_sum)?)
qed (intro returns_then returns_connected_pass returns_intros; simp)+

lemma live_no_error: "returns (\<lambda>r. result_error r = None) (reconcile_live K)"
  unfolding reconcile_live_def skipped_pass_def
  by (intro returns_intros returns_full_pass) simp_all

section \<open>The requeue interval of a full pass\<close>

definition pass_interval :: "dbqr \<Rightarrow> duration \<Rightarrow> duration \<Rightarrow> bool" where
  "pass_interval d poll t \<longleftrightarrow> t = retry_interval poll \<or> t = poll \<or> t = nextRequeueInterval d poll"

lemma connected_pass_interval:
  "\<exists>t. run_result (connected_pass K poll config db) s = requeue t \<and>
     (pass_interval (cr s) poll t \<or>
      (t = 0 \<and> template_parse K ''resourceTemplate'' (resource_template (spec (cr s))) \<noteq> None))"
proof -
  let ?s1 = "run_after (setCondition K ConditionDBConnected ''True'' ''Connected'' ''Successfully connected to the database'') s"
  let ?read = "client_read db (query (spec (cr ?s1)))"
  show ?thesis
  proof (cases "run_result ?read ?s1")
    case (Inl e)
    then show ?thesis
      by (intro exI [of _ poll]) (simp add: connected_pass_def pass_interval_def)
  next
    case (Inr p)
    obtain rows cols where p: "p = (rows, cols)" by (rule prod.exhaust)
    show ?thesis
    proof (cases "template_parse K ''resourceTemplate'' (resource_template (spec (cr s)))")
      case None
      obtain keys errs where "run_result (process_rows K rows) (run_after ?read ?s1) = (keys, errs)"
        by (rule prod.exhaust)
      note m = manage_rows_facts(5) [OF this, of poll config]
      have sp: "spec (cr (run_after ?read ?s1)) = spec (cr s)" by simp
      have "run_result (connected_pass K poll config db) s = run_result (manage_rows K poll config rows) (run_after ?read ?s1)"
        using Inr p None by (simp add: connected_pass_def)
      then show ?thesis
        using m nextRequeueInterval_spec [OF sp, of poll]
        by (intro exI [of _ "nextRequeueInterval (cr s) poll"]) (simp add: pass_interval_def)
    next
      case (Some e)
      with Inr p show ?thesis by (intro exI [of _ 0]) (simp add: connected_pass_def)
    qed
  qed
qed

lemma full_pass_interval:
  "\<exists>t. run_result (full_pass K poll) s = requeue t \<and>
     (pass_interval (cr s) poll t \<or>
      (t = 0 \<and> template_parse K ''resourceTemplate'' (resource_template (spec (cr s))) \<noteq> None))"
proof -
  let ?s1 = "run_after (getDBConfig K (cr s)) s"
  show ?thesis
  proof (cases "run_result (getDBConfig K (cr s)) s")
    case (Inl e)
    then show ?thesis
      by (intro exI [of _ "retry_interval poll"]) (simp add: full_pass_def pass_interval_def)
  next
    case config: (Inr c)
    let ?s2 = "run_after (open_client K (cr s) c) ?s1"
    show ?thesis
    proof (cases "run_result (open_client K (cr s) c) ?s1")
      case (Inl e)
      with config show ?thesis
        by (intro exI [of _ "retry_interval poll"]) (simp add: full_pass_def pass_interval_def)
    next
      case (Inr db)
      have "run_result (full_pass K poll) s = run_result (connected_pass K poll c db) ?s2"
        using config Inr by (simp add: full_pass_def)
      then show ?thesis using connected_pass_interval [of K poll c db ?s2] by simp
    qed
  qed
qed

lemma pass_interval_bounds: "0 < poll \<Longrightarrow> pass_interval d poll t \<Longrightarrow> 0 < t \<and> t \<le> poll"
  using nextRequeueInterval_cases [of d poll] by (auto simp: pass_interval_def retry_interval_def second_def)

section \<open>Rows\<close>

text \<open>A row that fails adds its error and no key; one that succeeds adds its key and no error.\<close>

lemma process_rows_Cons:
  "run_result (process_rows K (row # rows)) s =
     (case run_result (process_row K row) s of
        Inl e \<Rightarrow> apsnd (Cons e) (run_result (process_rows K rows) (run_after (process_row K row) s))
      | Inr key \<Rightarrow> apfst (finsert key) (run_result (process_rows K rows) (run_after (process_row K row) s)))"
  by (simp add: split_def split: sum.split) (simp add: prod_eq_iff)

lemma process_rows_count:
  "run_result (process_rows K rows) s = (keys, errors) \<Longrightarrow> fcard keys + length errors \<le> length rows \<and>
   (errors = [] \<longrightarrow> rows \<noteq> [] \<longrightarrow> keys \<noteq> {||})"
proof (induction rows arbitrary: s keys errors)
  case (Cons row rows)
  obtain keys' errors' where r: "run_result (process_rows K rows) (run_after (process_row K row) s) = (keys', errors')"
    by (rule prod.exhaust)
  note IH = conjunct1 [OF Cons.IH [OF r]]
  show ?case
  proof (cases "run_result (process_row K row) s")
    case (Inl e)
    then have "keys = keys'" "errors = e # errors'"
      using Cons.prems r unfolding process_rows_Cons by simp_all
    with IH show ?thesis by simp
  next
    case (Inr k)
    then have "keys = finsert k keys'" "errors = errors'"
      using Cons.prems r unfolding process_rows_Cons by simp_all
    moreover have "fcard (finsert k keys') \<le> Suc (fcard keys')" by (simp add: fcard_finsert_if)
    ultimately show ?thesis using IH by simp
  qed
qed simp

text \<open>The last call of a row that returned a key: nothing was needed, or a write went through.\<close>

definition write_ok :: "event \<Rightarrow> bool" where
  "write_ok e = (case e of Updated _ None \<Rightarrow> True | Applied _ None \<Rightarrow> True | _ \<Rightarrow> False)"

lemma apply_row_object_key:
  assumes "run_result (apply_row_object K obj) s = Inr key"
  shows "run_result (shouldUpdateResource K obj) s = Inr False \<and> key = getObjectKey obj \<or>
    run_result (shouldUpdateResource K obj) s = Inr True \<and>
    (\<exists>es e. history (run_after (apply_row_object K obj) s) = es @ [e] \<and> write_ok e)"
proof -
  let ?s1 = "run_after (shouldUpdateResource K obj) s"
  let ?get = "do_get K (u_gvk obj) (u_namespace obj) (u_name obj)"
  show ?thesis
  proof (cases "run_result (shouldUpdateResource K obj) s")
    case (Inl e)
    with assms show ?thesis by (simp add: apply_row_object_def)
  next
    case needed: (Inr needed)
    show ?thesis
    proof (cases needed)
      case True
      show ?thesis
      proof (cases "run_result ?get ?s1")
        case (Inl err)
        with assms needed True have nf: "is_not_found err"
          and c: "run_result (create_object K obj) (run_after ?get ?s1) = Inr key"
          by (auto simp: apply_row_object_def split: if_splits)
        from c obtain o1 where o1: "setLastAppliedConfig obj = Inr o1"
          by (cases "setLastAppliedConfig obj") (auto simp: create_object_def)
        from c o1 obtain o2 where o2: "run_result (do_apply K o1) (run_after ?get ?s1) = Inr o2"
          by (cases "run_result (do_apply K o1) (run_after ?get ?s1)") (auto simp: create_object_def)
        have "history (run_after (apply_row_object K obj) s) = history (run_after ?get ?s1) @ [Applied o1 None]"
          using needed True Inl nf o1 o2 by (simp add: apply_row_object_def create_object_def do_apply_def)
        then show ?thesis using needed True by (auto simp: write_ok_def)
      next
        case (Inr existing)
        let ?upd = "updateWithConflictRetry K (applyDesiredState existing obj) obj"
        have none: "run_result ?upd (run_after ?get ?s1) = None"
          using assms needed True Inr by (auto simp: apply_row_object_def split: option.splits)
        then obtain u es where
          "history (run_after ?upd (run_after ?get ?s1)) = history (run_after ?get ?s1) @ es @ [Updated u None]"
          using update_attempts_None [of max_update_retries None K "applyDesiredState existing obj" obj
              "run_after ?get ?s1"]
          by (auto simp: updateWithConflictRetry_def max_update_retries_def)
        then have "history (run_after (apply_row_object K obj) s) = (history (run_after ?get ?s1) @ es) @ [Updated u None]"
          using needed True Inr by (simp add: apply_row_object_def)
        then show ?thesis using needed True by (auto simp: write_ok_def)
      qed
    next
      case False
      with assms needed show ?thesis by (simp add: apply_row_object_def)
    qed
  qed
qed

section \<open>The deferred write\<close>

definition status_write :: "event \<Rightarrow> bool" where
  "status_write e = (case e of Updated_Status _ _ \<Rightarrow> True | _ \<Rightarrow> False)"

lemma write_status_bound:
  "length (filter status_write (history (run_after (write_status K ns n k desired latest) s)))
     \<le> length (filter status_write (history s)) + k"
proof (induction k arbitrary: latest s)
  case (Suc k)
  let ?c = "call (update_status K (latest\<lparr>status := desired\<rparr>)) (\<lambda>r. Updated_Status (latest\<lparr>status := desired\<rparr>) (failure r))"
  let ?s1 = "run_after ?c s"
  let ?s2 = "run_after (do_get_cr K ns n) ?s1"
  have "length (filter status_write (history ?s1)) = length (filter status_write (history s)) + 1"
    "length (filter status_write (history ?s2)) = length (filter status_write (history s)) + 1"
    by (simp_all add: do_get_cr_def status_write_def)
  with Suc.IH [of _ ?s2] show ?case by (force split: sum.splits)
qed simp

text \<open>An event of the deferred write: reads of the resource, and writes of the desired status.\<close>

definition deferred_event :: "dbqr_status \<Rightarrow> event \<Rightarrow> bool" where
  "deferred_event st e = (case e of Got_CR _ \<Rightarrow> True | Updated_Status d _ \<Rightarrow> status d = st | _ \<Rightarrow> False)"

lemma emits_write_status_desired: "emits (deferred_event st) (write_status K ns n k st latest)"
proof (induction k arbitrary: latest)
  case (Suc k)
  show ?case
    unfolding write_status.simps do_get_cr_def
    by (intro emits_intros emits_call Suc) (simp_all add: deferred_event_def)
qed (simp add: emits_return)

end
