(* ===== verification/Deletion.thy ===== *)
theory Deletion
  imports Pass_Results Simulation
begin

text \<open>
  Properties of the ends of a child's life: the finalizer of a deleted resource and the pruning of a
  full pass, both as statements about the calls of the whole pass.
\<close>

section \<open>The finalizer\<close>

definition is_read :: "event \<Rightarrow> bool" where
  "is_read e = (case e of Got_CR _ \<Rightarrow> True | Got _ _ _ _ \<Rightarrow> True | _ \<Rightarrow> False)"

lemma emits_collect_reads: "emits is_read (collectAllChildResources K)"
  unfolding collectAllChildResources_def by (intro emits_intros emits_collect_objects) (simp add: is_read_def)

lemma read_not_finalizing: "list_all is_read es \<Longrightarrow> \<not> finalizing e \<or> e \<notin> set es"
  by (auto simp: list_all_iff is_read_def finalizing_def split: event.splits)

text \<open>The state in which \<open>Reconcile\<close> starts to work on the resource it fetched.\<close>

definition fetched :: "('w, 'v, 'c) env \<Rightarrow> string \<Rightarrow> string \<Rightarrow> dbqr \<Rightarrow> 'w rs \<Rightarrow> 'w rs" where
  "fetched K ns n d s = (run_after (do_get_cr K ns n) s)\<lparr>cr := d\<rparr>"

lemma fetched_simps [simp]:
  "cr (fetched K ns n d s) = d" "history (fetched K ns n d s) = history s @ [Got_CR (failure (run_result (do_get_cr K ns n) s) = None)]"
  "world (fetched K ns n d s) = world (run_after (do_get_cr K ns n) s)"
  by (simp_all add: fetched_def do_get_cr_def)

lemma Reconcile_fetched:
  assumes "run_result (do_get_cr K ns n) s = Inr d"
  shows "deleting d \<Longrightarrow> run_after (Reconcile K ns n) s = run_after (handle_deletion K) (fetched K ns n d s)"
    and "deleting d \<Longrightarrow> run_result (Reconcile K ns n) s = run_result (handle_deletion K) (fetched K ns n d s)"
    and "\<not> deleting d \<Longrightarrow> run_after (Reconcile K ns n) s =
      run_after (deferred_status_update K ns n) (run_after (reconcile_live K) (fetched K ns n (init_conditions d) s))"
    and "\<not> deleting d \<Longrightarrow> run_result (Reconcile K ns n) s = run_result (reconcile_live K) (fetched K ns n (init_conditions d) s)"
  using assms by (simp_all add: Reconcile_def fetched_def)

lemma deferred_no_finalize: "emits no_finalize (deferred_status_update K ns n)"
  by (rule live.emits_deferred)

text \<open>The deletion branch: reads, deletions and at most one write of the resource.\<close>

lemma handle_deletion_finalizes:
  assumes h: "history (run_after (handle_deletion K) s) = history s @ es" and e: "e \<in> set es" "finalizing e"
  shows "DatabaseQueryFinalizer \<in> set (d_finalizers (cr s)) \<and>
    (\<exists>gets outcomes r. list_all is_read gets \<and> length outcomes = length (collected K s) \<and> list_all gone outcomes \<and>
      e = Updated_CR (remove_finalizer K (cr s) DatabaseQueryFinalizer) r \<and>
      es = gets @ map2 Deleted (collected K s) outcomes @ [e])"
proof (cases "DatabaseQueryFinalizer \<in> set (d_finalizers (cr s))")
  case True
  let ?c = "collectAllChildResources K" and ?s1 = "run_after (collectAllChildResources K) s"
  have c: "run_result ?c s = Inr (collected K s)"
    by (simp add: collectAllChildResources_def collected_def)
  obtain gets where gets: "history ?s1 = history s @ gets" "list_all is_read gets"
    using emitsD [OF emits_collect_reads] by blast
  let ?del = "delete_all K (collected K s)"
  show ?thesis
  proof (cases "run_result ?del ?s1")
    case None
    from delete_all_None [OF this] obtain outcomes where o: "length outcomes = length (collected K s)"
      "list_all gone outcomes" "history (run_after ?del ?s1) = history ?s1 @ map2 Deleted (collected K s) outcomes"
      by blast
    let ?s2 = "run_after ?del ?s1"
    let ?d = "remove_finalizer K (cr s) DatabaseQueryFinalizer"
    let ?u = "Updated_CR ?d (fst (update_cr K ?d (world ?s2)))"
    have "history (run_after (handle_deletion K) s) = history ?s2 @ [?u]"
      using True c None by (simp add: handle_deletion_def do_update_cr_def)
    then have es: "es = gets @ map2 Deleted (collected K s) outcomes @ [?u]"
      using h gets(1) o(3) by simp
    have "\<not> finalizing x" if "x \<in> set (map2 Deleted (collected K s) outcomes)" for x
      using that by (auto simp: finalizing_def)
    then have "e = ?u" using e es read_not_finalizing [OF gets(2), of e] by auto
    then show ?thesis using True gets(2) o(1,2) es by blast
  next
    case (Some err)
    obtain ds where ds: "history (run_after ?del ?s1) = history ?s1 @ ds" "list_all no_finalize ds"
      using emitsD [OF emits_delete_all] by blast
    have "history (run_after (handle_deletion K) s) = history (run_after ?del ?s1)"
      using True c Some by (simp add: handle_deletion_def)
    then have "es = gets @ ds" using h gets(1) ds(1) by simp
    then show ?thesis
      using e ds(2) read_not_finalizing [OF gets(2), of e] by (auto simp: list_all_iff)
  qed
next
  case False
  then have "es = []" using h by (simp add: handle_deletion_def)
  with e show ?thesis by simp
qed

lemma handle_deletion_extends: "\<exists>es. history (run_after (handle_deletion K) s) = history s @ es"
proof -
  have d: "emits (\<lambda>_. True) (delete_all K objs)" for objs :: "unstructured list"
    by (rule emits_mono [OF emits_delete_all]) simp
  have "emits (\<lambda>_. True) (handle_deletion K)"
    unfolding handle_deletion_def do_update_cr_def
    by (intro emits_intros emits_call emits_mono [OF emits_collect_reads] d) simp_all
  then show ?thesis using emitsD by blast
qed

section \<open>Properties of deletion\<close>

text \<open>C1: A pass writes the resource itself (which removes the finalizer) only when the resource it fetched
  is being deleted and has the finalizer, as its last call, and after a deletion of every managed child it
  could read, each of which succeeded or found the object gone; nothing but reads comes before them.\<close>

theorem finalizer_after_cleanup:
  assumes "history (run_after (Reconcile K ns n) s) = history s @ es" "Updated_CR d r \<in> set es"
  shows "\<exists>d0 gets outcomes. run_result (do_get_cr K ns n) s = Inr d0 \<and> deleting d0 \<and>
    DatabaseQueryFinalizer \<in> set (d_finalizers d0) \<and> d = remove_finalizer K d0 DatabaseQueryFinalizer \<and>
    list_all is_read gets \<and> length outcomes = length (collected K (fetched K ns n d0 s)) \<and> list_all gone outcomes \<and>
    es = gets @ map2 Deleted (collected K (fetched K ns n d0 s)) outcomes @ [Updated_CR d r]"
proof (cases "run_result (do_get_cr K ns n) s")
  case (Inl err)
  then have "es = [Got_CR False]"
    using assms(1) by (simp add: Reconcile_def do_get_cr_def)
  with assms(2) show ?thesis by simp
next
  case (Inr d0)
  let ?f = "fetched K ns n"
  have got: "history (?f x s) = history s @ [Got_CR True]" for x
    using Inr by simp
  show ?thesis
  proof (cases "deleting d0")
    case True
    obtain fs where fs: "history (run_after (handle_deletion K) (?f d0 s)) = history (?f d0 s) @ fs"
      using handle_deletion_extends by blast
    have es: "es = Got_CR True # fs"
      using assms(1) Reconcile_fetched(1) [OF Inr True] fs got by simp
    then have "Updated_CR d r \<in> set fs" using assms(2) by simp
    from handle_deletion_finalizes [OF fs this] obtain gets outcomes r' where
      g: "DatabaseQueryFinalizer \<in> set (d_finalizers d0)" "list_all is_read gets"
      "length outcomes = length (collected K (?f d0 s))" "list_all gone outcomes"
      "Updated_CR d r = Updated_CR (remove_finalizer K d0 DatabaseQueryFinalizer) r'"
      "fs = gets @ map2 Deleted (collected K (?f d0 s)) outcomes @ [Updated_CR d r]"
      by (auto simp: finalizing_def)
    show ?thesis
      using Inr True g es
      by (intro exI [of _ d0] exI [of _ "Got_CR True # gets"] exI [of _ outcomes]) (simp add: is_read_def)
  next
    case False
    have "emits no_finalize (do { res \<leftarrow> reconcile_live K; _ \<leftarrow> deferred_status_update K ns n; State_Monad.return res })"
      by (intro emits_intros emits_live_no_finalize deferred_no_finalize)
    from emitsD [OF this, of "?f (init_conditions d0) s"] obtain fs where
      "history (run_after (Reconcile K ns n) s) = history s @ Got_CR True # fs" "list_all no_finalize fs"
      using Reconcile_fetched(3) [OF Inr False] got by auto
    with assms have "finalizing (Updated_CR d r) = False" by (auto simp: list_all_iff)
    then show ?thesis by (simp add: finalizing_def)
  qed
qed

text \<open>The simulated resource, being deleted.\<close>

definition deleted_world :: "sim rs" where
  "deleted_world = sim_state\<lparr>world := sim_world\<lparr>sim_cr :=
     Some (sim_resource\<lparr>d_deletionTimestamp := Some (GoTime 900 None)\<rparr>)\<rparr>\<rparr>"

theorem finalizer_after_cleanup_witness:
  "\<exists>d0 outcomes. run_result (do_get_cr sim_env ''default'' ''r'') deleted_world = Inr d0 \<and> deleting d0 \<and>
     DatabaseQueryFinalizer \<in> set (d_finalizers d0) \<and> list_all gone outcomes \<and>
     length outcomes = length (collected sim_env (fetched sim_env ''default'' ''r'' d0 deleted_world)) \<and>
     deleted_objects (history (run_after (Reconcile sim_env ''default'' ''r'') deleted_world)) = [sim_child]"
proof -
  let ?d = "sim_resource\<lparr>d_deletionTimestamp := Some (GoTime 900 None), d_finalizers := []\<rparr>"
  let ?es = "[Got_CR True, Got (GVK [] ''v1'' ''ConfigMap'') ''default'' ''old'' None,
        Deleted sim_child None, Updated_CR ?d None]"
  have h: "history (run_after (Reconcile sim_env ''default'' ''r'') deleted_world) = history deleted_world @ ?es"
    by code_simp
  moreover have "history deleted_world = []" by (simp add: deleted_world_def sim_state_def)
  ultimately have "deleted_objects (history (run_after (Reconcile sim_env ''default'' ''r'') deleted_world)) = [sim_child]"
    by (simp add: deleted_objects_def deleted_object_def map_filter_simps)
  moreover have "Updated_CR ?d None \<in> set ?es" by simp
  ultimately show ?thesis using finalizer_after_cleanup [OF h, of ?d None] by blast
qed

text \<open>What the collection of the children reads: every key of the list once, and what it returns was read.\<close>

lemma collect_objects_reads:
  assumes "get_faithful K"
  shows "\<exists>gets. history (run_after (collect_objects K parts ids) s) = history s @ gets \<and> list_all is_read gets \<and>
    (\<forall>u \<in> set (run_result (collect_objects K parts ids) s). Got (u_gvk u) (u_namespace u) (u_name u) None \<in> set gets) \<and>
    (\<forall>k \<in> set ids. \<forall>g ns n. parts k = Some (g, ns, n) \<longrightarrow> (\<exists>r. Got g ns n r \<in> set gets))"
proof (induction ids arbitrary: s)
  case (Cons k ids)
  show ?case
  proof (cases "parts k")
    case None
    with Cons show ?thesis by simp
  next
    case (Some p)
    obtain g ns n where p: "p = (g, ns, n)" by (rule prod_cases3)
    let ?r = "run_result (do_get K g ns n) s" and ?s = "run_after (do_get K g ns n) s"
    have h: "history ?s = history s @ [Got g ns n (failure ?r)]" by (simp add: do_get_def)
    have hit: "?r = Inr u \<Longrightarrow> failure ?r = None \<and> u_gvk u = g \<and> u_namespace u = ns \<and> u_name u = n" for u
      using do_get_faithful [OF assms] by simp
    obtain gets where "history (run_after (collect_objects K parts ids) ?s) = history ?s @ gets" "list_all is_read gets"
      "\<forall>u \<in> set (run_result (collect_objects K parts ids) ?s). Got (u_gvk u) (u_namespace u) (u_name u) None \<in> set gets"
      "\<forall>k \<in> set ids. \<forall>g ns n. parts k = Some (g, ns, n) \<longrightarrow> (\<exists>r. Got g ns n r \<in> set gets)"
      using Cons.IH by blast
    moreover have "is_read (Got g ns n (failure ?r))" by (simp add: is_read_def)
    ultimately show ?thesis
      using Some p h hit
      by (intro exI [of _ "Got g ns n (failure ?r) # gets"]) (cases ?r; auto simp: ex_disj_distrib)
  qed
qed simp

text \<open>C34: A managed child whose read fails in the deletion branch of a pass is not deleted, whatever the
  error, also one other than not found, and the write that removes the finalizer is made all the same: when
  the finalizer is there, the key of the child is in the status, no read of it succeeds in this pass and the deletions of the
  children that could be read go through (deleted or not found), the calls of the pass are reads, one of
  them the failed read of the child, then one deletion for each child that could be read, none of them of
  this child, and the write that removes the finalizer. If no child could be read, nothing is deleted.
  (The API returns on a get the object asked for.)\<close>

theorem unreadable_children_orphaned:
  assumes "get_faithful K" "DatabaseQueryFinalizer \<in> set (d_finalizers (cr s))"
    and "key \<in> set (managed_list (status (cr s)))" "key_parts key = Some (g, ns, n)"
    and "history (run_after (collectAllChildResources K) s) = history s @ gets" "Got g ns n None \<notin> set gets"
    and "run_result (delete_all K (collected K s)) (run_after (collectAllChildResources K) s) = None"
  shows "\<exists>outcomes err r. length outcomes = length (collected K s) \<and> list_all gone outcomes \<and>
    history (run_after (handle_deletion K) s) = history s @ gets @ map2 Deleted (collected K s) outcomes @
      [Updated_CR (remove_finalizer K (cr s) DatabaseQueryFinalizer) r] \<and>
    list_all is_read gets \<and> Got g ns n (Some err) \<in> set gets \<and>
    (\<forall>u \<in> set (collected K s). (u_gvk u, u_namespace u, u_name u) \<noteq> (g, ns, n))"
proof -
  let ?c = "collectAllChildResources K" and ?s1 = "run_after (collectAllChildResources K) s"
  have c: "run_result ?c s = Inr (collected K s)"
    "?s1 = run_after (collect_objects K key_parts (managed_list (status (cr s)))) s"
    by (simp_all add: collectAllChildResources_def collected_def)
  from collect_objects_reads [OF assms(1), of key_parts "managed_list (status (cr s))" s] c(2) assms(5)
  have r: "list_all is_read gets"
    "\<forall>u \<in> set (collected K s). Got (u_gvk u) (u_namespace u) (u_name u) None \<in> set gets"
    "\<forall>k \<in> set (managed_list (status (cr s))). \<forall>g ns n. key_parts k = Some (g, ns, n) \<longrightarrow> (\<exists>r. Got g ns n r \<in> set gets)"
    by (auto simp: collected_def)
  then obtain err where err: "Got g ns n (Some err) \<in> set gets"
    using assms(3,4,6) by (metis not_Some_eq)
  obtain outcomes where o: "length outcomes = length (collected K s)" "list_all gone outcomes"
    "history (run_after (delete_all K (collected K s)) ?s1) = history ?s1 @ map2 Deleted (collected K s) outcomes"
    using delete_all_None [OF assms(7)] by blast
  let ?s2 = "run_after (delete_all K (collected K s)) ?s1"
  let ?d = "remove_finalizer K (cr s) DatabaseQueryFinalizer"
  have "history (run_after (handle_deletion K) s) = history ?s2 @ [Updated_CR ?d (fst (update_cr K ?d (world ?s2)))]"
    using assms(2,7) c(1) by (simp add: handle_deletion_def do_update_cr_def)
  with o(3) assms(5) have "history (run_after (handle_deletion K) s) =
      history s @ gets @ map2 Deleted (collected K s) outcomes @ [Updated_CR ?d (fst (update_cr K ?d (world ?s2)))]"
    by simp
  moreover have "\<forall>u \<in> set (collected K s). (u_gvk u, u_namespace u, u_name u) \<noteq> (g, ns, n)"
    using r(2) assms(6) by auto
  ultimately show ?thesis using o(1,2) r(1) err by blast
qed

text \<open>Two children, of which the server refuses to show the first.\<close>

definition guarded_env :: "(sim, string, nat) env" where
  "guarded_env = sim_env\<lparr>get_object := \<lambda>g ns n w.
     if n = ''old'' then (Inl (Other_Error ''forbidden''), w) else get_object sim_env g ns n w\<rparr>"

definition two_children_state :: "sim rs" where
  "two_children_state = sim_state
     \<lparr>cr := sim_resource\<lparr>status := sim_status
        \<lparr>managedResources := Some [''/v1/ConfigMap/default/old'', ''/v1/ConfigMap/default/new'']\<rparr>\<rparr>,
      world := sim_world\<lparr>sim_objects := [sim_child, sim_child\<lparr>u_name := ''new''\<rparr>]\<rparr>\<rparr>"

theorem unreadable_children_orphaned_witness:
  "deleted_objects (history (run_after (handle_deletion guarded_env) two_children_state)) = [sim_child\<lparr>u_name := ''new''\<rparr>] \<and>
   (\<exists>es r. history (run_after (handle_deletion guarded_env) two_children_state) =
      es @ [Updated_CR (remove_finalizer guarded_env (cr two_children_state) DatabaseQueryFinalizer) r])"
proof -
  let ?s = two_children_state and ?K = guarded_env
  let ?gets = "[Got (GVK [] ''v1'' ''ConfigMap'') ''default'' ''old'' (Some (Other_Error ''forbidden'')),
      Got (GVK [] ''v1'' ''ConfigMap'') ''default'' ''new'' None]"
  have f: "get_faithful ?K"
    by (auto simp: get_faithful_def guarded_env_def sim_env_def sim_lookup_def find_Some_iff split: option.splits if_splits)
  have fin: "DatabaseQueryFinalizer \<in> set (d_finalizers (cr ?s))" by code_simp
  have key: "''/v1/ConfigMap/default/old'' \<in> set (managed_list (status (cr ?s)))" by code_simp
  have parts: "key_parts ''/v1/ConfigMap/default/old'' = Some (GVK [] ''v1'' ''ConfigMap'', ''default'', ''old'')" by code_simp
  have gets: "history (run_after (collectAllChildResources ?K) ?s) = history ?s @ ?gets" by code_simp
  have col: "collected ?K ?s = [sim_child\<lparr>u_name := ''new''\<rparr>]" by code_simp
  have del: "run_result (delete_all ?K (collected ?K ?s)) (run_after (collectAllChildResources ?K) ?s) = None"
    unfolding col by code_simp
  have h0: "history ?s = []" by (simp add: two_children_state_def sim_state_def)
  have n: "Got (GVK [] ''v1'' ''ConfigMap'') ''default'' ''old'' None \<notin> set ?gets" by simp
  from unreadable_children_orphaned [OF f fin key parts gets n del] obtain outcomes r where
    o: "length outcomes = 1" and h: "history (run_after (handle_deletion ?K) ?s) =
      ?gets @ map2 Deleted [sim_child\<lparr>u_name := ''new''\<rparr>] outcomes @
      [Updated_CR (remove_finalizer ?K (cr ?s) DatabaseQueryFinalizer) r]"
    unfolding col h0 by auto
  obtain x where x: "outcomes = [x]" using o by (auto simp: length_Suc_conv)
  have u: "deleted_objects [Updated_CR d r] = []" for d r
    by (simp add: deleted_objects_def deleted_object_def map_filter_simps)
  have "deleted_objects (history (run_after (handle_deletion ?K) ?s)) = [sim_child\<lparr>u_name := ''new''\<rparr>]"
    unfolding h x by (simp add: u)
  with h show ?thesis by (metis append.assoc)
qed

section \<open>Pruning\<close>

lemma no_delete_parts [emits_intros]:
  "emits no_delete (process_rows K rows)" "emits no_delete (collect_managed_children K)"
  "emits no_delete (updateStatusForChildResources K objs config)" "emits no_delete (finish_pass K poll keys errors)"
  "emits no_delete (setCondition K t st r m)" "emits no_delete (getDBConfig K d)"
  by (rule keeping.emits_rows keeping.emits_collect keeping.emits_status_updates keeping.emits_finish
      keeping.emits_condition keeping.emits_config)+

lemma no_delete_calls [emits_intros]:
  "emits no_delete (open_client K d config)" "emits no_delete (client_read c q)" "emits no_delete (client_close c)"
  by (intro emits_intros; simp add: no_delete_def)+

lemmas deleted_kept [simp] = no_delete_parts [THEN deleted_objects_emits] no_delete_calls [THEN deleted_objects_emits]

lemma deleted_manage_rows:
  assumes "run_result (process_rows K rows) s = (keys, errors)"
  shows "deleted_objects (history (run_after (manage_rows K poll config rows) s)) =
    deleted_objects (history s) @
    (if GetPrune (spec (cr s)) then filter (\<lambda>u. getObjectKey u |\<notin>| keys) (collected K (run_after (process_rows K rows) s)) else [])"
  by (simp add: manage_rows_def assms deleted_prune_phase)

text \<open>A full pass either stops before its rows or is the row loop and what follows on a state with the
  same managed resources.\<close>

definition stops_early :: "'w rs \<Rightarrow> 'w rs \<Rightarrow> bool" where
  "stops_early s s' \<longleftrightarrow> deleted_objects (history s') = deleted_objects (history s) \<and>
     managedResources (status (cr s')) = managedResources (status (cr s))"

definition runs_rows :: "('w, 'v, 'c) env \<Rightarrow> duration \<Rightarrow> 'w rs \<Rightarrow> 'w rs \<Rightarrow> bool" where
  "runs_rows K poll s s' \<longleftrightarrow> (\<exists>s1 config rows.
     managedResources (status (cr s1)) = managedResources (status (cr s)) \<and> spec (cr s1) = spec (cr s) \<and>
     deleted_objects (history s1) = deleted_objects (history s) \<and>
     cr s' = cr (run_after (manage_rows K poll config rows) s1) \<and>
     deleted_objects (history s') = deleted_objects (history (run_after (manage_rows K poll config rows) s1)))"

lemma connected_pass_cases:
  "stops_early s (run_after (connected_pass K poll config db) s) \<or>
   runs_rows K poll s (run_after (connected_pass K poll config db) s)"
proof -
  let ?s1 = "run_after (setCondition K ConditionDBConnected ''True'' ''Connected'' ''Successfully connected to the database'') s"
  let ?read = "client_read db (query (spec (cr ?s1)))"
  show ?thesis
  proof (cases "run_result ?read ?s1")
    case (Inl e)
    then show ?thesis by (simp add: connected_pass_def stops_early_def)
  next
    case (Inr p)
    obtain rows cols where p: "p = (rows, cols)" by (rule prod.exhaust)
    show ?thesis
    proof (cases "template_parse K ''resourceTemplate'' (resource_template (spec (cr s)))")
      case None
      with Inr p have "run_after (connected_pass K poll config db) s =
          run_after (manage_rows K poll config rows) (run_after ?read ?s1)"
        by (simp add: connected_pass_def)
      then have "runs_rows K poll s (run_after (connected_pass K poll config db) s)"
        unfolding runs_rows_def
        by (intro exI [of _ "run_after ?read ?s1"] exI [of _ config] exI [of _ rows]) simp
      then show ?thesis ..
    next
      case (Some e)
      with Inr p show ?thesis by (simp add: connected_pass_def stops_early_def)
    qed
  qed
qed

lemma full_pass_cases:
  "stops_early s (run_after (full_pass K poll) s) \<or> runs_rows K poll s (run_after (full_pass K poll) s)"
proof -
  let ?s1 = "run_after (getDBConfig K (cr s)) s"
  show ?thesis
  proof (cases "run_result (getDBConfig K (cr s)) s")
    case (Inl e)
    then show ?thesis by (simp add: full_pass_def stops_early_def)
  next
    case config: (Inr c)
    let ?s2 = "run_after (open_client K (cr s) c) ?s1"
    show ?thesis
    proof (cases "run_result (open_client K (cr s) c) ?s1")
      case (Inl e)
      with config show ?thesis by (simp add: full_pass_def stops_early_def)
    next
      case (Inr db)
      let ?s3 = "run_after (connected_pass K poll c db) ?s2"
      have "run_after (full_pass K poll) s = run_after (client_close db) ?s3"
        using config Inr by (simp add: full_pass_def)
      then show ?thesis
        using connected_pass_cases [of ?s2 K poll c db] by (simp add: stops_early_def runs_rows_def)
    qed
  qed
qed

lemma managed_list_eq: "managedResources st = Some ks \<Longrightarrow> managed_list st = ks"
  "managedResources st = managedResources st' \<Longrightarrow> managed_list st = managed_list st'"
  by (simp_all add: managed_list_def)

lemma collected_managed:
  "get_faithful K \<Longrightarrow> u \<in> set (collected K s) \<Longrightarrow> getObjectKey u \<in> set (managed_list (status (cr s)))"
  unfolding collected_def by (rule collect_objects_managed)

text \<open>C5: Once the rows are processed, pruning (when it is enabled) deletes exactly the readable managed
  children whose key no row of this pass returned, in the order of the status list, and nothing else of the
  pass deletes anything; the new list holds the keys of the rows, sorted, and nothing else.\<close>

theorem prune_exact:
  assumes "run_result (process_rows K rows) s = (keys, errors)"
  shows "deleted_objects (history (run_after (manage_rows K poll config rows) s)) = deleted_objects (history s) @
      (if GetPrune (spec (cr s))
       then filter (\<lambda>u. getObjectKey u |\<notin>| keys) (collected K (run_after (process_rows K rows) s)) else []) \<and>
    managed_list (status (cr (run_after (manage_rows K poll config rows) s))) = sorted_list_of_fset keys"
  using deleted_manage_rows [OF assms] managed_list_eq(1) [OF manage_rows_facts(1) [OF assms]] by simp

text \<open>The row of the simulated database, and what the row loop makes of it.\<close>

definition sim_row :: "string smap" where
  "sim_row = fmupd ''name'' ''a'' fmempty"

definition nameless_row :: "string smap" where
  "nameless_row = fmempty"

lemma nameless_rows: "fst (run_result (process_rows sim_env [nameless_row]) sim_state) = {||}"
  by (simp add: process_row_def render_row_def execute_template_def nameless_row_def sim_env_def sim_render_def)

theorem prune_exact_witness:
  "deleted_objects (history (run_after (manage_rows sim_env 60 fmempty [nameless_row]) sim_state)) = [sim_child]"
proof -
  have "collected sim_env (run_after (process_rows sim_env [nameless_row]) sim_state) = [sim_child]" by code_simp
  moreover obtain errors where r: "run_result (process_rows sim_env [nameless_row]) sim_state = ({||}, errors)"
    using nameless_rows by (metis prod.collapse)
  ultimately show ?thesis using prune_exact [OF r, of 60 fmempty]
    by (simp add: sim_state_def sim_resource_def sim_spec_def GetPrune_def)
qed

text \<open>C4: Every object a full pass deletes was recorded as managed before the pass, pruning is enabled, and
  the new status list does not have it, whatever the outcome of the deletion: once that list is written to
  the server, a deletion that failed is not tried again.\<close>

theorem full_pass_deletes_stale_managed:
  assumes "get_faithful K"
    and "deleted_objects (history (run_after (full_pass K poll) s)) = deleted_objects (history s) @ us"
    and "u \<in> set us"
  shows "GetPrune (spec (cr s)) \<and> getObjectKey u \<in> set (managed_list (status (cr s))) \<and>
    getObjectKey u \<notin> set (managed_list (status (cr (run_after (full_pass K poll) s))))"
  using full_pass_cases [of s K poll]
proof
  assume "stops_early s (run_after (full_pass K poll) s)"
  with assms(2,3) show ?thesis by (simp add: stops_early_def)
next
  assume "runs_rows K poll s (run_after (full_pass K poll) s)"
  then obtain s1 config rows where s1: "managedResources (status (cr s1)) = managedResources (status (cr s))"
    "spec (cr s1) = spec (cr s)" "deleted_objects (history s1) = deleted_objects (history s)"
    "cr (run_after (full_pass K poll) s) = cr (run_after (manage_rows K poll config rows) s1)"
    "deleted_objects (history (run_after (full_pass K poll) s)) =
      deleted_objects (history (run_after (manage_rows K poll config rows) s1))"
    unfolding runs_rows_def by blast
  obtain keys errors where r: "run_result (process_rows K rows) s1 = (keys, errors)" by (rule prod.exhaust)
  let ?s2 = "run_after (process_rows K rows) s1"
  have us: "us = (if GetPrune (spec (cr s)) then filter (\<lambda>u. getObjectKey u |\<notin>| keys) (collected K ?s2) else [])"
    using deleted_manage_rows [OF r, of poll config] assms(2) s1 by simp
  have l: "managed_list (status (cr (run_after (full_pass K poll) s))) = sorted_list_of_fset keys"
    using managed_list_eq(1) [OF manage_rows_facts(1) [OF r]] s1(4) by simp
  have "u \<in> set (collected K ?s2) \<Longrightarrow> getObjectKey u \<in> set (managed_list (status (cr s)))"
    using collected_managed [OF assms(1), of u ?s2] managed_list_eq(2) [OF s1(1)] by simp
  with us assms(3) l show ?thesis by (simp split: if_splits)
qed

text \<open>The simulated state with an empty table.\<close>

definition empty_state :: "sim rs" where
  "empty_state = sim_state\<lparr>world := sim_world\<lparr>sim_rows := []\<rparr>\<rparr>"

lemma get_faithful_sim: "get_faithful sim_env"
  by (auto simp: get_faithful_def sim_env_def sim_lookup_def find_Some_iff split: option.splits)

lemma collected_sim:
  assumes "managed_list (status (cr s)) = [''/v1/ConfigMap/default/old'']" "sim_objects (world s) = [sim_child]"
  shows "collected sim_env s = [sim_child]"
proof -
  have "key_parts ''/v1/ConfigMap/default/old'' = Some (GVK [] ''v1'' ''ConfigMap'', ''default'', ''old'')" by code_simp
  with assms show ?thesis
    by (simp add: collected_def do_get_def sim_env_def sim_lookup_def sim_child_def sim_manifest_def)
qed

lemma deleted_full_pass_sim:
  "deleted_objects (history (run_after (full_pass sim_env poll) empty_state)) = [sim_child]"
proof -
  have "isl (run_result (getDBConfig sim_env sim_resource) empty_state) = False" by code_simp
  then obtain c where c: "run_result (getDBConfig sim_env (cr empty_state)) empty_state = Inr c"
    by (cases "run_result (getDBConfig sim_env sim_resource) empty_state") (auto simp: empty_state_def sim_state_def)
  let ?s1 = "run_after (getDBConfig sim_env (cr empty_state)) empty_state"
  have w: "sim_objects (world ?s1) = [sim_child]" "sim_rows (world ?s1) = []"
    by (simp_all add: getDBConfig_def Let_def empty_state_def sim_state_def sim_env_def sim_world_def)
  have m: "managed_list (status (cr empty_state)) = [''/v1/ConfigMap/default/old'']" "GetPrune (spec (cr empty_state))"
    by (simp_all add: empty_state_def sim_state_def sim_resource_def sim_status_def sim_spec_def managed_list_def GetPrune_def)
  have o: "run_result (open_client sim_env (cr empty_state) c) s = Inr sim_client"
    "world (run_after (open_client sim_env (cr empty_state) c) s) = world s" for s
    by (simp_all add: open_client_def getOrCreateDBClient_def sim_env_def)
  have r: "run_result (process_rows sim_env []) s = ({||}, [])" for s :: "sim rs"
    by simp
  have k: "snd (clock sim_env w) = w\<lparr>sim_time := sim_time w + 1\<rparr>" "template_parse sim_env n t = None"
    "deleted_objects (history empty_state) = []"
    "managed_list (status (cr empty_state)\<lparr>conditions := cs\<rparr>) = managed_list (status (cr empty_state))" for w n t cs
    by (simp_all add: sim_env_def empty_state_def sim_state_def managed_list_def)
  have e: "deleted_objects [Clock_Read t, Read_Query q b] = []" for t q b
    by (simp add: deleted_objects_def deleted_object_def map_filter_simps)
  show ?thesis
    using c o w m
    by (simp add: full_pass_def connected_pass_def client_read_def sim_client_def setCondition_def now_def
        deleted_manage_rows [OF r] collected_sim k e)
qed

theorem full_pass_deletes_stale_managed_witness:
  "deleted_objects (history (run_after (full_pass sim_env (60 * second)) empty_state)) = [sim_child] \<and>
   getObjectKey sim_child \<in> set (managed_list (status (cr empty_state))) \<and>
   getObjectKey sim_child \<notin> set (managed_list (status (cr (run_after (full_pass sim_env (60 * second)) empty_state))))"
proof -
  note d = deleted_full_pass_sim [of "60 * second"]
  then have "deleted_objects (history (run_after (full_pass sim_env (60 * second)) empty_state)) =
      deleted_objects (history empty_state) @ [sim_child]" by (simp add: empty_state_def sim_state_def)
  from full_pass_deletes_stale_managed [OF get_faithful_sim this, of sim_child] d show ?thesis by simp
qed

text \<open>The outcome of each row: the key of its object, or its error.\<close>

primrec row_results :: "('w, 'v, 'c) env \<Rightarrow> 'v smap list \<Rightarrow> ('w, (string + string) list) prog" where
  "row_results K [] = State_Monad.return []"
| "row_results K (row # rows) = do {
     r \<leftarrow> process_row K row;
     rs \<leftarrow> row_results K rows;
     State_Monad.return (r # rs)
   }"

lemma row_results_keys:
  "Inr k \<in> set (run_result (row_results K rows) s) \<longleftrightarrow> k |\<in>| fst (run_result (process_rows K rows) s)"
proof (induction rows arbitrary: s)
  case (Cons row rows)
  show ?case
    using Cons.IH [of "run_after (process_row K row) s"]
    by (cases "run_result (process_row K row) s") (auto simp: process_rows_Cons simp del: process_rows.simps)
qed simp

text \<open>C35: A row that fails counts as a row that is gone. When pruning is on, every readable managed child whose
  key no row of this pass returned, because its row failed in this pass (to render, to decode, to be placed
  or to be applied) or because there is no such row, is deleted in this pass and is not in the new list of
  managed resources. If all rows of the pass failed, every readable managed child is deleted and the list
  becomes empty.\<close>

theorem failed_rows_are_pruned:
  fixes poll config
  assumes "GetPrune (spec (cr s))" "run_result (row_results K rows) s = results"
  defines "s1 \<equiv> run_after (process_rows K rows) s" and "s' \<equiv> run_after (manage_rows K poll config rows) s"
  shows "\<exists>us. deleted_objects (history s') = deleted_objects (history s) @ us \<and>
    (\<forall>u \<in> set (collected K s1). Inr (getObjectKey u) \<notin> set results \<longrightarrow>
       u \<in> set us \<and> getObjectKey u \<notin> set (managed_list (status (cr s')))) \<and>
    (list_all isl results \<longrightarrow> us = collected K s1 \<and> managed_list (status (cr s')) = [])"
proof -
  obtain keys errors where r: "run_result (process_rows K rows) s = (keys, errors)" by (rule prod.exhaust)
  have k: "k |\<in>| keys \<longleftrightarrow> Inr k \<in> set results" for k
    using row_results_keys [of k K rows s] r assms(2) by simp
  have "keys = {||}" if "list_all isl results"
    using that k by (fastforce simp: list_all_iff)
  moreover have l: "managed_list (status (cr s')) = sorted_list_of_fset keys"
    unfolding s'_def using managed_list_eq(1) [OF manage_rows_facts(1) [OF r]] .
  moreover have "deleted_objects (history s') = deleted_objects (history s) @
      filter (\<lambda>u. getObjectKey u |\<notin>| keys) (collected K s1)"
    unfolding s'_def s1_def using deleted_manage_rows [OF r] assms(1) by simp
  ultimately show ?thesis
    using k by (intro exI [of _ "filter (\<lambda>u. getObjectKey u |\<notin>| keys) (collected K s1)"])
      (auto simp: sorted_list_of_fset.rep_eq)
qed

text \<open>The row that returned the child has lost its name and does not render any more.\<close>

theorem failed_rows_are_pruned_witness:
  "deleted_objects (history (run_after (manage_rows sim_env 60 fmempty [nameless_row]) sim_state)) = [sim_child] \<and>
   managed_list (status (cr (run_after (manage_rows sim_env 60 fmempty [nameless_row]) sim_state))) = []"
proof -
  have c: "collected sim_env (run_after (process_rows sim_env [nameless_row]) sim_state) = [sim_child]" by code_simp
  have g: "GetPrune (spec (cr sim_state))" by (simp add: sim_state_def sim_resource_def sim_spec_def GetPrune_def)
  have "list_all isl (run_result (row_results sim_env [nameless_row]) sim_state)" by code_simp
  moreover have "deleted_objects (history sim_state) = []" by (simp add: sim_state_def)
  ultimately show ?thesis using failed_rows_are_pruned [OF g refl, where K = sim_env and rows = "[nameless_row]" and poll = 60 and config = fmempty] c
    by auto
qed

end
