(* ===== verification/Webhook.thy ===== *)
theory Webhook
  imports Simulation
begin

text \<open>
  \<open>internal/webhook/v1alpha1/validation.go\<close> and the validator of \<open>databasequeryresource_webhook.go\<close>:
  admission of a \<open>DatabaseQueryResource\<close>. A \<open>field.Error\<close> is its kind, path, offending value and
  detail; the Invalid error that carries them is the list of them with the name of the resource.
\<close>

datatype field_error =
    Required (fe_path: string) (fe_detail: string)
  | Invalid (fe_path: string) (fe_value: string) (fe_detail: string)

definition maxErrorValueRunes :: nat where
  "maxErrorValueRunes = 80"

definition truncate :: "string \<Rightarrow> string" where
  "truncate value =
     (let rs = runes value in
      if length rs \<le> maxErrorValueRunes then value
      else string_of_runes (take maxErrorValueRunes rs) @ ''...'')"

definition duration_hint :: string where
  "duration_hint = ''must be a valid Go duration such as '' @ [CHR 0x22] @ ''30s'' @ [CHR 0x22] @ '', '' @
     [CHR 0x22] @ ''5m'' @ [CHR 0x22] @ '' or '' @ [CHR 0x22] @ ''1h'' @ [CHR 0x22] @ '': ''"

definition validateDuration :: "string \<Rightarrow> string \<Rightarrow> string \<Rightarrow> duration \<times> field_error option" where
  "validateDuration path name value =
     (if trim_space value = [] then (0, Some (Required path (name @ '' must not be empty'')))
      else (case ParseDuration value of
              Inl err \<Rightarrow> (0, Some (Invalid path value (duration_hint @ err)))
            | Inr d \<Rightarrow>
                if d \<le> 0 then
                  (d, Some (Invalid path value
                    ''must be greater than zero; a non-positive interval would poll the database continuously''))
                else (d, None)))"

definition validateTemplate :: "('w, 'v, 'c) env \<Rightarrow> string \<Rightarrow> string \<Rightarrow> string \<Rightarrow> field_error option" where
  "validateTemplate K path tmplName tmpl =
     (case template_parse K tmplName tmpl of
        Some err \<Rightarrow> Some (Invalid path (truncate tmpl) (''must be a valid Go template: '' @ err))
      | None \<Rightarrow> None)"

definition option_list :: "'a option \<Rightarrow> 'a list" where
  "option_list x = (case x of None \<Rightarrow> [] | Some y \<Rightarrow> [y])"

text \<open>The checks of \<open>validateSpec\<close> one by one, in its order.\<close>

definition validate_secret_name :: "dbqr_spec \<Rightarrow> field_error list" where
  "validate_secret_name sp =
     (if trim_space (sr_name (connectionSecretRef (database sp))) = [] then
        [Required ''spec.database.connectionSecretRef.name''
           ''name of the Secret holding the database connection details must not be empty'']
      else [])"

definition validate_query :: "dbqr_spec \<Rightarrow> field_error list" where
  "validate_query sp =
     (if query sp = [] then [Required ''spec.query'' ''query must not be empty'']
      else if trim_space (query sp) = [] then
        [Invalid ''spec.query'' (query sp) ''query must not consist of whitespace only'']
      else [])"

definition validate_templates :: "('w, 'v, 'c) env \<Rightarrow> dbqr_spec \<Rightarrow> field_error list" where
  "validate_templates K sp =
     (if resource_template sp = [] then [Required ''spec.template'' ''template must not be empty'']
      else if trim_space (resource_template sp) = [] then
        [Invalid ''spec.template'' (resource_template sp) ''template must not consist of whitespace only'']
      else option_list (validateTemplate K ''spec.template'' ''resourceTemplate'' (resource_template sp))) @
     (if trim_space (statusUpdateQueryTemplate sp) \<noteq> [] then
        option_list (validateTemplate K ''spec.statusUpdateQueryTemplate'' ''statusUpdateQuery''
          (statusUpdateQueryTemplate sp))
      else [])"

definition interval_warning :: "string \<Rightarrow> string \<Rightarrow> string" where
  "interval_warning change poll =
     ''spec.changeDetection.changePollInterval ('' @ change @ '') is not shorter than spec.pollInterval ('' @
     poll @ ''): change detection cannot make reconciliation more responsive than the full poll interval''"

definition validate_change_detection ::
    "dbqr_spec \<Rightarrow> duration \<times> field_error option \<Rightarrow> field_error list \<times> string list" where
  "validate_change_detection sp poll =
     (case changeDetection sp of
        None \<Rightarrow> ([], [])
      | Some cd \<Rightarrow>
          (case validateDuration ''spec.changeDetection.changePollInterval'' ''changePollInterval''
                  (changePollInterval cd) of
             (_, Some err) \<Rightarrow> ([err], [])
           | (changeInterval, None) \<Rightarrow>
               ([], if cd_enabled cd \<and> snd poll = None \<and> changeInterval \<ge> fst poll
                    then [interval_warning (changePollInterval cd) (pollInterval sp)] else [])))"

definition validateSpec :: "('w, 'v, 'c) env \<Rightarrow> dbqr_spec \<Rightarrow> field_error list \<times> string list" where
  "validateSpec K sp =
     (let poll = validateDuration ''spec.pollInterval'' ''pollInterval'' (pollInterval sp);
          (changeErrs, warnings) = validate_change_detection sp poll
      in (option_list (snd poll) @ validate_secret_name sp @ validate_query sp @ validate_templates K sp @
          changeErrs, warnings))"

text \<open>The warnings, and the name and causes of the Invalid error.\<close>

definition ValidateDatabaseQueryResource ::
    "('w, 'v, 'c) env \<Rightarrow> dbqr \<Rightarrow> string list \<times> (string \<times> field_error list) option" where
  "ValidateDatabaseQueryResource K d =
     (case validateSpec K (spec d) of
        (allErrs, warnings) \<Rightarrow> (warnings, if allErrs = [] then None else Some (d_name d, allErrs)))"

definition ValidateCreate :: "('w, 'v, 'c) env \<Rightarrow> dbqr \<Rightarrow> string list \<times> (string \<times> field_error list) option" where
  "ValidateCreate K obj = ValidateDatabaseQueryResource K obj"

definition ValidateUpdate ::
    "('w, 'v, 'c) env \<Rightarrow> dbqr \<Rightarrow> dbqr \<Rightarrow> string list \<times> (string \<times> field_error list) option" where
  "ValidateUpdate K old_obj newObj = ValidateDatabaseQueryResource K newObj"

definition ValidateDelete :: "dbqr \<Rightarrow> string list \<times> (string \<times> field_error list) option" where
  "ValidateDelete obj = ([], None)"

section \<open>What is accepted\<close>

text \<open>The specification of admission.\<close>

definition positive_duration :: "string \<Rightarrow> bool" where
  "positive_duration s \<longleftrightarrow> (\<exists>d. ParseDuration s = Inr d \<and> 0 < d)"

definition spec_valid :: "('w, 'v, 'c) env \<Rightarrow> dbqr_spec \<Rightarrow> bool" where
  "spec_valid K sp \<longleftrightarrow>
     positive_duration (pollInterval sp) \<and>
     trim_space (sr_name (connectionSecretRef (database sp))) \<noteq> [] \<and>
     trim_space (query sp) \<noteq> [] \<and> trim_space (resource_template sp) \<noteq> [] \<and>
     template_parse K ''resourceTemplate'' (resource_template sp) = None \<and>
     (trim_space (statusUpdateQueryTemplate sp) \<noteq> [] \<longrightarrow>
        template_parse K ''statusUpdateQuery'' (statusUpdateQueryTemplate sp) = None) \<and>
     (\<forall>cd. changeDetection sp = Some cd \<longrightarrow> positive_duration (changePollInterval cd))"

lemma option_list_Nil [simp]: "option_list x = [] \<longleftrightarrow> x = None"
  by (simp add: option_list_def split: option.split)

text \<open>A duration has a digit, and white space has none.\<close>

lemma leading_int_no_digit: "\<forall>c \<in> set s. \<not> is_digit c \<Longrightarrow> leading_int x s = Some (x, s)"
  by (cases s) simp_all

lemma duration_component_no_digit:
  assumes "\<forall>c \<in> set s. \<not> is_digit c"
  shows "duration_component orig s = Inl (invalid_duration orig)"
proof -
  have f: "leading_fraction 0 1 False cs = (0, 1, cs)" if "\<forall>c \<in> set cs. \<not> is_digit c" for cs
    using that by (cases cs) simp_all
  have "\<exists>f sc r. consume_fraction s = (f, sc, r, False)"
    using assms f by (cases s) (simp_all add: consume_fraction_def)
  then obtain f sc r where "consume_fraction s = (f, sc, r, False)" by blast
  then show ?thesis
    using leading_int_no_digit [OF assms, of 0] by (simp add: duration_component_def)
qed

lemma ParseDuration_no_digit:
  assumes "\<forall>c \<in> set s. \<not> is_digit c"
  shows "\<exists>e. ParseDuration s = Inl e"
proof -
  obtain neg body where b: "(case s of c # cs \<Rightarrow> if c = CHR ''-'' \<or> c = CHR ''+'' then (c = CHR ''-'', cs)
      else (False, s) | [] \<Rightarrow> (False, s)) = (neg, body)" by (rule prod.exhaust)
  then have "body = s \<or> body = tl s" by (cases s) (auto split: if_splits)
  then have body: "\<forall>c \<in> set body. \<not> is_digit c"
    using assms by (cases s) auto
  then have "body \<noteq> ''0''" by (auto simp: is_digit_def)
  moreover have "parse_components s body 0 = Inl (invalid_duration s)" if "body \<noteq> []"
    using that duration_component_no_digit [OF body] by (simp add: parse_components.simps)
  ultimately show ?thesis unfolding ParseDuration_def b by auto
qed

lemma trim_space_keeps_digits: "c \<in> set s \<Longrightarrow> is_digit c \<Longrightarrow> c \<in> set (trim_space s)"
proof -
  assume c: "c \<in> set s" "is_digit c"
  have "\<forall>e \<in> set space_encodings. c \<notin> set e"
    using c(2) by (auto simp: space_encodings_def is_digit_def)
  with c(1) show ?thesis by (rule trim_space_keeps)
qed

lemma ParseDuration_not_blank: "ParseDuration s = Inr d \<Longrightarrow> trim_space s \<noteq> []"
proof
  assume s: "ParseDuration s = Inr d" "trim_space s = []"
  then have "\<forall>c \<in> set s. \<not> is_digit c" using trim_space_keeps_digits [of _ s] by auto
  then show False using ParseDuration_no_digit [of s] s(1) by auto
qed

lemma validateDuration_None:
  "snd (validateDuration path name s) = None \<longleftrightarrow> positive_duration s"
  using ParseDuration_not_blank [of s, unfolded not_def]
  by (auto simp: validateDuration_def positive_duration_def split: sum.splits)

lemma validateDuration_value:
  "validateDuration path name s = (d, None) \<Longrightarrow> ParseDuration s = Inr d \<and> 0 < d"
  by (auto simp: validateDuration_def split: sum.splits if_splits)

lemma validateTemplate_None: "validateTemplate K path name t = None \<longleftrightarrow> template_parse K name t = None"
  by (simp add: validateTemplate_def split: option.split)

lemma validate_change_detection_Nil:
  "fst (validate_change_detection sp poll) = [] \<longleftrightarrow>
     (\<forall>cd. changeDetection sp = Some cd \<longrightarrow> positive_duration (changePollInterval cd))"
proof (cases "changeDetection sp")
  case (Some cd)
  let ?v = "validateDuration ''spec.changeDetection.changePollInterval'' ''changePollInterval'' (changePollInterval cd)"
  show ?thesis
    using validateDuration_None [of "''spec.changeDetection.changePollInterval''" "''changePollInterval''" "changePollInterval cd"]
    by (cases ?v; cases "snd ?v") (auto simp: validate_change_detection_def Some)
qed (simp add: validate_change_detection_def)

lemma validateSpec_errors:
  "fst (validateSpec K sp) = option_list (snd (validateDuration ''spec.pollInterval'' ''pollInterval'' (pollInterval sp))) @
     validate_secret_name sp @ validate_query sp @ validate_templates K sp @
     fst (validate_change_detection sp (validateDuration ''spec.pollInterval'' ''pollInterval'' (pollInterval sp)))"
  by (simp add: validateSpec_def Let_def split_def)

lemma validateSpec_Nil: "fst (validateSpec K sp) = [] \<longleftrightarrow> spec_valid K sp"
proof -
  have s: "validate_secret_name sp = [] \<longleftrightarrow> trim_space (sr_name (connectionSecretRef (database sp))) \<noteq> []"
    by (simp add: validate_secret_name_def)
  have q: "validate_query sp = [] \<longleftrightarrow> trim_space (query sp) \<noteq> []"
    by (auto simp: validate_query_def)
  have t: "validate_templates K sp = [] \<longleftrightarrow> trim_space (resource_template sp) \<noteq> [] \<and>
     template_parse K ''resourceTemplate'' (resource_template sp) = None \<and>
     (trim_space (statusUpdateQueryTemplate sp) \<noteq> [] \<longrightarrow>
        template_parse K ''statusUpdateQuery'' (statusUpdateQueryTemplate sp) = None)"
    by (auto simp: validate_templates_def validateTemplate_None)
  show ?thesis
    by (simp add: validateSpec_errors validateDuration_None s q t validate_change_detection_Nil spec_valid_def)
qed

section \<open>Truncated values\<close>

lemma low6_less: "low6 c < 64"
  by (simp add: low6_def)

lemma second_range_scalar:
  assumes "second_range b = (lo, hi)" "cont_byte lo hi c"
  shows "b = 224 \<Longrightarrow> 32 \<le> low6 c" "b = 237 \<Longrightarrow> low6 c < 32" "b = 240 \<Longrightarrow> 16 \<le> low6 c" "b = 244 \<Longrightarrow> low6 c < 16"
proof -
  have m: "low6 c = of_char c - 128" if "128 \<le> (of_char c :: nat)" "of_char c \<le> (191 :: nat)"
  proof -
    have "low6 c = (of_char c - 128) mod 64"
      using that by (simp add: low6_def mod_if)
    then show ?thesis using that by simp
  qed
  show "b = 224 \<Longrightarrow> 32 \<le> low6 c" "b = 237 \<Longrightarrow> low6 c < 32" "b = 240 \<Longrightarrow> 16 \<le> low6 c" "b = 244 \<Longrightarrow> low6 c < 16"
    using assms m by (auto simp: second_range_def cont_byte_def)
qed

lemma decode_rune_scalar:
  assumes rk: "decode_rune c cs = (r, k)"
  shows "scalar r"
proof -
  let ?b = "of_char c :: nat"
  obtain lo hi where lh: "second_range ?b = (lo, hi)" by (rule prod.exhaust)
  note range = second_range_scalar [OF lh]
  have err: "scalar rune_error" by (simp add: scalar_def rune_error_def)
  consider "?b < 128" | "r = rune_error"
    | c1 where "194 \<le> ?b" "?b < 224" "r = (?b - 192) * 64 + low6 c1"
    | c1 c2 where "224 \<le> ?b" "?b < 240" "cont_byte lo hi c1" "r = (?b - 224) * 4096 + low6 c1 * 64 + low6 c2"
    | c1 c2 c3 where "240 \<le> ?b" "?b < 245" "cont_byte lo hi c1"
        "r = (?b - 240) * 262144 + low6 c1 * 4096 + low6 c2 * 64 + low6 c3"
    using rk lh unfolding decode_rune_def Let_def by (auto split: if_splits list.splits)
  then show ?thesis
  proof cases
    case 1
    with rk show ?thesis by (auto simp: scalar_def)
  next
    case 2
    with err show ?thesis by simp
  next
    case (3 c1)
    then show ?thesis using low6_less [of c1] by (auto simp: scalar_def)
  next
    case (4 c1 c2)
    have "?b < 237 \<or> ?b = 237 \<or> 238 \<le> ?b" by linarith
    then show ?thesis
      using 4 range(2) [OF 4(3)] low6_less [of c1] low6_less [of c2] unfolding scalar_def by linarith
  next
    case (5 c1 c2 c3)
    have "?b = 240 \<or> ?b = 244 \<or> (241 \<le> ?b \<and> ?b < 244)" using 5 by linarith
    then show ?thesis
      using 5 range(3,4) [OF 5(3)] low6_less [of c1] low6_less [of c2] low6_less [of c3]
      unfolding scalar_def by linarith
  qed
qed

lemma runes_scalar: "r \<in> set (runes s) \<Longrightarrow> scalar r"
proof (induction s rule: runes.induct)
  case (2 c cs)
  obtain r' k where d: "decode_rune c cs = (r', k)" by (rule prod.exhaust)
  with 2 decode_rune_scalar [OF d] show ?case by auto
qed simp

lemma runes_truncate:
  "maxErrorValueRunes < length (runes v) \<Longrightarrow>
   runes (truncate v) = take maxErrorValueRunes (runes v) @ runes ''...''"
  using runes_string_of_runes [of "take maxErrorValueRunes (runes v)" "''...''"] runes_scalar
  by (auto simp: truncate_def Let_def dest: in_set_takeD)

section \<open>Properties\<close>

lemma admission_valid: "snd (ValidateCreate K d) = None \<longleftrightarrow> spec_valid K (spec d)"
  using validateSpec_Nil [of K "spec d"]
  by (simp add: ValidateCreate_def ValidateDatabaseQueryResource_def split_def)

text \<open>C22: A resource is admitted on create and on update exactly when its specification is valid: positive
  poll interval, Secret name, query and template that are not blank, templates that parse, and a positive
  change interval when change detection is configured at all. Deletions are always admitted.\<close>

theorem admission_exact:
  "(snd (ValidateCreate K d) = None \<longleftrightarrow> spec_valid K (spec d)) \<and>
   (snd (ValidateUpdate K old d) = None \<longleftrightarrow> spec_valid K (spec d)) \<and>
   snd (ValidateDelete d) = None"
  using admission_valid [of K d]
  by (simp add: ValidateCreate_def ValidateUpdate_def ValidateDelete_def)

text \<open>The warning is given exactly when both intervals are valid, change detection is on and its
  interval is not below the poll interval, and it never denies the resource.\<close>

theorem interval_warning_exact:
  "fst (ValidateCreate K d) =
     (case changeDetection (spec d) of
        None \<Rightarrow> []
      | Some cd \<Rightarrow>
          (case (ParseDuration (changePollInterval cd), ParseDuration (pollInterval (spec d))) of
             (Inr change, Inr poll) \<Rightarrow>
               if cd_enabled cd \<and> 0 < change \<and> 0 < poll \<and> poll \<le> change
               then [interval_warning (changePollInterval cd) (pollInterval (spec d))] else []
           | _ \<Rightarrow> []))"
proof -
  have v: "validateDuration p n s =
      (case ParseDuration s of
         Inr x \<Rightarrow> if 0 < x then (x, None) else validateDuration p n s
       | Inl _ \<Rightarrow> validateDuration p n s)" for p n s
    using ParseDuration_not_blank [of s] by (auto simp: validateDuration_def split: sum.splits)
  have bad: "\<not> positive_duration s \<Longrightarrow> \<exists>x e. validateDuration p n s = (x, Some e)" for p n s
    using validateDuration_None [of p n s] by (metis option.exhaust prod.collapse)
  have good: "ParseDuration s = Inr x \<Longrightarrow> 0 < x \<Longrightarrow> validateDuration p n s = (x, None)" for p n s x
    using v [of p n s] by simp
  show ?thesis
  proof (cases "changeDetection (spec d)")
    case (Some cd)
    let ?vc = "validateDuration ''spec.changeDetection.changePollInterval'' ''changePollInterval'' (changePollInterval cd)"
    let ?vp = "validateDuration ''spec.pollInterval'' ''pollInterval'' (pollInterval (spec d))"
    have w: "fst (ValidateCreate K d) = snd (validate_change_detection (spec d) ?vp)"
      by (simp add: ValidateCreate_def ValidateDatabaseQueryResource_def validateSpec_def Let_def split_def)
    show ?thesis
    proof (cases "positive_duration (changePollInterval cd) \<and> positive_duration (pollInterval (spec d))")
      case True
      then obtain c p where "ParseDuration (changePollInterval cd) = Inr c" "0 < c"
        "ParseDuration (pollInterval (spec d)) = Inr p" "0 < p"
        unfolding positive_duration_def by blast
      then show ?thesis
        using good by (simp add: w validate_change_detection_def Some)
    next
      case False
      have "snd (validate_change_detection (spec d) ?vp) = []"
      proof (cases "positive_duration (changePollInterval cd)")
        case True
        with False obtain x e where "?vp = (x, Some e)" using bad by blast
        then show ?thesis by (cases ?vc; cases "snd ?vc") (auto simp: validate_change_detection_def Some)
      next
        case False
        then obtain x e where "?vc = (x, Some e)" using bad by blast
        then show ?thesis by (simp add: validate_change_detection_def Some)
      qed
      with False show ?thesis
        unfolding w by (auto simp: Some positive_duration_def split: sum.splits)
    qed
  qed (simp add: ValidateCreate_def ValidateDatabaseQueryResource_def validateSpec_def validate_change_detection_def Let_def)
qed

text \<open>A value echoed in an error has at most 83 runes, starts with the first 80 runes of the value, and
  a longer value is never cut inside a rune: the result is valid UTF-8 whatever the value.\<close>

theorem truncate_bounded:
  "length (runes (truncate v)) \<le> 83 \<and> prefix (take 80 (runes v)) (runes (truncate v)) \<and>
   (80 < length (runes v) \<longrightarrow> valid_utf8 (truncate v))"
proof (cases "80 < length (runes v)")
  case True
  then have t: "runes (truncate v) = take 80 (runes v) @ runes ''...''"
    using runes_truncate [of v] by (simp add: maxErrorValueRunes_def)
  have dots: "runes ''...'' = map of_char ''...''" by (rule runes_ascii) (simp add: ascii_def)
  have "truncate v = string_of_runes (take 80 (runes v)) @ ''...''"
    using True by (simp add: truncate_def maxErrorValueRunes_def Let_def)
  also have "\<dots> = string_of_runes (take 80 (runes v) @ map of_char ''...'')"
  proof -
    have "char_of (46 :: nat) = CHR ''.''" by (rule char_eqI) simp
    then show ?thesis by simp
  qed
  finally have "string_of_runes (runes (truncate v)) = truncate v" unfolding t dots by (rule sym)
  then have "valid_utf8 (truncate v)" by (simp add: valid_utf8_def)
  then show ?thesis using t dots by simp
next
  case False
  then show ?thesis by (simp add: truncate_def maxErrorValueRunes_def Let_def)
qed

theorem truncate_bounded_witness:
  "length (runes (truncate (replicate 200 (CHR ''a'')))) \<le> 83 \<and> valid_utf8 (truncate (replicate 200 (CHR ''a'')))"
proof -
  have "runes (replicate 200 (CHR ''a'')) = map of_char (replicate 200 (CHR ''a''))"
    by (rule runes_ascii) (simp add: ascii_def)
  then have "80 < length (runes (replicate 200 (CHR ''a'')))" by (simp only: length_map length_replicate)
  with truncate_bounded [of "replicate 200 (CHR ''a'')"] show ?thesis by blast
qed

end
