(* ===== verification/Pass_Properties.thy ===== *)
theory Pass_Properties
  imports Deletion Webhook
begin

text \<open>
  Properties of a whole pass of a resource that is not being deleted: the status it leaves, its result
  and requeue interval, which calls a skipped pass makes, what a row contributes, the deferred status
  write, the guarantee that an admitted resource is polled again, the absence of writes in a pass whose
  query failed, and what the status shows of a connection URI that does not parse.
\<close>

section \<open>The status\<close>

lemma finish_pass_poll_time:
  "errors = [] \<Longrightarrow> \<exists>t. Clock_Read t \<in> set (history (run_after (finish_pass K poll keys errors) s)) \<and>
     lastPollTime (status (cr (run_after (finish_pass K poll keys errors) s))) = Some t"
  by (simp add: finish_pass_def now_def setCondition_def)

text \<open>C8: After the rows, whatever failed, the status lists exactly the keys of the rows that succeeded,
  sorted and without duplicates; the recorded versions are of listed keys only; and the poll time moves
  only when no row and no deletion failed, to an instant read from the clock.\<close>

theorem pass_bookkeeping:
  fixes poll config
  assumes "run_result (process_rows K rows) s = (keys, rowErrors)"
  defines "s' \<equiv> run_after (manage_rows K poll config rows) s"
  shows "sorted (managed_list (status (cr s'))) \<and> distinct (managed_list (status (cr s'))) \<and>
    set (managed_list (status (cr s'))) = fset keys \<and>
    (\<forall>m. resourceVersions (status (cr s')) = Some m \<longrightarrow> fset (fmdom m) \<subseteq> set (managed_list (status (cr s')))) \<and>
    (lastPollTime (status (cr s')) = lastPollTime (status (cr s)) \<or>
     rowErrors = [] \<and> run_result (prune_phase K keys) (run_after (process_rows K rows) s) = [] \<and>
     (\<exists>t. Clock_Read t \<in> set (history s') \<and> lastPollTime (status (cr s')) = Some t))"
proof -
  have l: "managed_list (status (cr s')) = sorted_list_of_fset keys"
    using managed_list_eq(1) [OF manage_rows_facts(1) [OF assms(1)]] by (simp add: s'_def)
  obtain v where v: "resourceVersions (status (cr s')) = map_option (fmfilter (\<lambda>k. k |\<in>| keys)) v"
    using manage_rows_facts(2) [OF assms(1)] by (auto simp: s'_def)
  have versions: "fset (fmdom m) \<subseteq> fset keys" if "resourceVersions (status (cr s')) = Some m" for m
    using that v by (auto split: option.splits)
  let ?s1 = "run_after (process_rows K rows) s"
  let ?prune = "run_result (prune_phase K keys) ?s1"
  let ?s2 = "run_after (prune_phase K keys) ?s1"
  let ?s3 = "run_after (updateStatusForChildResources K (run_result (collect_managed_children K) ?s2) config)
      (run_after (collect_managed_children K) ?s2)"
  have s': "s' = run_after (finish_pass K poll keys (rowErrors @ ?prune)) ?s3"
    by (simp add: s'_def manage_rows_def assms(1))
  have "lastPollTime (status (cr s')) = lastPollTime (status (cr s)) \<or> rowErrors = [] \<and> ?prune = [] \<and>
      (\<exists>t. Clock_Read t \<in> set (history s') \<and> lastPollTime (status (cr s')) = Some t)"
  proof (cases "rowErrors @ ?prune = []")
    case True
    with finish_pass_poll_time [OF True, of K poll keys ?s3] show ?thesis by (auto simp: s')
  next
    case False
    with finish_pass_facts(3) [OF False, of K poll keys ?s3] show ?thesis by (simp add: s')
  qed
  with l versions show ?thesis by (simp add: sorted_list_of_fset.rep_eq)
qed

theorem pass_bookkeeping_witness:
  "managed_list (status (cr (run_after (manage_rows sim_env 60 fmempty [nameless_row]) sim_state))) = [] \<and>
   lastPollTime (status (cr (run_after (manage_rows sim_env 60 fmempty [nameless_row]) sim_state))) = None"
proof -
  obtain errors where r: "run_result (process_rows sim_env [nameless_row]) sim_state = ({||}, errors)"
    using nameless_rows by (metis prod.collapse)
  have "errors \<noteq> []"
    using r by (auto simp: process_row_def render_row_def execute_template_def nameless_row_def sim_env_def sim_render_def)
  with pass_bookkeeping [OF r, of 60 fmempty] show ?thesis
    by (auto simp: sim_state_def sim_resource_def sim_status_def)
qed

section \<open>Results of a pass\<close>

text \<open>A pass over a resource that is not being deleted never returns an error, so the controller's
  rate limited retries are not used; failures show in the conditions and in the requeue interval.\<close>

theorem live_pass_no_error:
  assumes "run_result (do_get_cr K ns n) s = Inr d" "\<not> deleting d"
  shows "result_error (run_result (Reconcile K ns n) s) = None"
  unfolding Reconcile_fetched(4) [OF assms] by (rule returnsD [OF live_no_error])

lemma sim_live: "run_result (do_get_cr sim_env ns n) sim_state = Inr sim_resource" "\<not> deleting sim_resource"
  by (simp_all add: do_get_cr_def sim_env_def sim_state_def sim_world_def deleting_def sim_resource_def)

theorem live_pass_no_error_witness:
  "result_error (run_result (Reconcile sim_env ''default'' ''r'') sim_state) = None"
  by (rule live_pass_no_error [OF sim_live])

text \<open>C12: A pass that is skipped writes no child and not the resource itself: it reads, runs the detection
  query and the status updates, and writes the status.\<close>

theorem skipped_pass_quiet:
  assumes "run_result (do_get_cr K ns n) s = Inr d" "\<not> deleting d"
    and "ParseDuration (pollInterval (spec d)) = Inr poll"
    and "run_result (shouldReconcile K poll) (fetched K ns n (init_conditions d) s) = (False, wait)"
  shows "requeue_after (run_result (Reconcile K ns n) s) = wait \<and>
    (\<exists>es. history (run_after (Reconcile K ns n) s) = history s @ es \<and> list_all no_child_write es)"
proof -
  let ?f = "fetched K ns n (init_conditions d) s"
  let ?skip = "do { p \<leftarrow> shouldReconcile K poll; res \<leftarrow> skipped_pass K wait; _ \<leftarrow> deferred_status_update K ns n;
      State_Monad.return res }"
  have p: "ParseDuration (pollInterval (spec (cr ?f))) = Inr poll"
    using assms(3) by (simp add: init_conditions_def split: option.split)
  have r: "run_result (skipped_pass K wait) x = requeue wait" for x :: "'a rs"
    by (simp add: skipped_pass_def)
  have live: "run_after (reconcile_live K) ?f = run_after (skipped_pass K wait) (run_after (shouldReconcile K poll) ?f)"
    "run_result (reconcile_live K) ?f = run_result (skipped_pass K wait) (run_after (shouldReconcile K poll) ?f)"
    using p assms(4) by (simp_all add: reconcile_live_def)
  have "emits no_child_write ?skip"
    by (intro emits_intros quiet.emits_should quiet.emits_skipped quiet.emits_deferred)
  from emitsD [OF this, of ?f] obtain es where es: "history (run_after ?skip ?f) = history ?f @ es" "list_all no_child_write es"
    by blast
  have a: "run_after (Reconcile K ns n) s = run_after ?skip ?f"
    using Reconcile_fetched(3) [OF assms(1,2)] live by simp
  have "history (run_after (Reconcile K ns n) s) = history s @ (Got_CR True # es)"
    unfolding a es(1) using assms(1) by simp
  moreover have "list_all no_child_write (Got_CR True # es)"
    using es(2) by (simp add: no_child_write_def)
  moreover have "requeue_after (run_result (Reconcile K ns n) s) = wait"
    using Reconcile_fetched(4) [OF assms(1,2)] live r by simp
  ultimately show ?thesis by blast
qed

text \<open>A resource whose last poll and last check are recent.\<close>

definition recent_resource :: dbqr where
  "recent_resource = cr detecting_state"

definition recent_state :: "sim rs" where
  "recent_state = sim_state\<lparr>world := sim_world\<lparr>sim_cr := Some recent_resource\<rparr>\<rparr>"

theorem skipped_pass_quiet_witness:
  "\<exists>es. history (run_after (Reconcile sim_env ''default'' ''r'') recent_state) = es \<and> list_all no_child_write es \<and>
     requeue_after (run_result (Reconcile sim_env ''default'' ''r'') recent_state) = 9999999400"
proof -
  have g: "run_result (do_get_cr sim_env ''default'' ''r'') recent_state = Inr recent_resource"
    by (simp add: do_get_cr_def sim_env_def recent_state_def)
  have d: "\<not> deleting recent_resource" by code_simp
  have p: "ParseDuration (pollInterval (spec recent_resource)) = Inr (60 * second)" by code_simp
  have r: "run_result (shouldReconcile sim_env (60 * second))
      (fetched sim_env ''default'' ''r'' (init_conditions recent_resource) recent_state) = (False, 9999999400)"
    by code_simp
  have "history recent_state = []" by (simp add: recent_state_def sim_state_def)
  with skipped_pass_quiet [OF g d p r] show ?thesis by simp
qed

section \<open>Rows\<close>

text \<open>C10: A rendered object counts as managed only when the live object was found up to date or the last
  call made for it was a successful write; otherwise the row ends with an error.\<close>

theorem row_key_written:
  assumes "run_result (apply_row_object K obj) s = Inr key"
  shows "run_result (shouldUpdateResource K obj) s = Inr False \<and> key = getObjectKey obj \<or>
    run_result (shouldUpdateResource K obj) s = Inr True \<and>
    (\<exists>es e. history (run_after (apply_row_object K obj) s) = es @ [e] \<and> write_ok e)"
  using apply_row_object_key [OF assms] .

theorem row_key_written_witness:
  "\<exists>es e. history (run_after (apply_row_object sim_env (example_object None)) sim_state) = es @ [e] \<and> write_ok e"
proof -
  have p: "config_plain (config_of (example_object None))"
    by (rule example_object_plain(1)) (rule example_annotations_plain)
  then obtain u where u: "setLastAppliedConfig (example_object None) = Inr u" using setLastAppliedConfig_total by blast
  have g: "fst (get_object sim_env (GVK ''apps'' ''v1'' ''Deployment'') ''default'' ''web'' w) = Inl (NotFound ''web'')"
    "snd (get_object sim_env (GVK ''apps'' ''v1'' ''Deployment'') ''default'' ''web'' w) = w" if "w = sim_world" for w
    using that by (simp_all add: sim_env_def sim_lookup_def sim_world_def sim_child_def sim_manifest_def)
  have f: "u_gvk (example_object None) = GVK ''apps'' ''v1'' ''Deployment''" "u_namespace (example_object None) = ''default''"
    "u_name (example_object None) = ''web''" by (simp_all add: example_object_def)
  have n: "run_result (shouldUpdateResource sim_env (example_object None)) sim_state = Inr True"
    "world (run_after (shouldUpdateResource sim_env (example_object None)) sim_state) = sim_world"
    by (simp_all add: shouldUpdateResource_def do_get_def f g sim_state_def)
  have a: "fst (apply_object sim_env v w) = Inr v" for v w by (simp add: sim_env_def)
  have "\<exists>key. run_result (apply_row_object sim_env (example_object None)) sim_state = Inr key"
    by (simp add: apply_row_object_def n do_get_def f g create_object_def u do_apply_def a)
  then obtain key where k: "run_result (apply_row_object sim_env (example_object None)) sim_state = Inr key" by blast
  from row_key_written [OF k] n show ?thesis by simp
qed

section \<open>The deferred status write\<close>

lemma write_status_cr: "cr (run_after (write_status K ns n k desired latest) s) = cr s"
proof (induction k arbitrary: latest s)
  case (Suc k)
  show ?case by (simp add: do_get_cr_def Suc.IH split: sum.split)
qed simp

text \<open>C11: The deferred write sends at most three status updates, each of them the status the pass ended
  with (with the observed generation set to the generation that was processed), and none when the server
  already has it; it leaves the resource of the pass as it was.\<close>

theorem deferred_status_exact:
  "cr (run_after (deferred_status_update K ns n) s) = cr s \<and>
   (\<exists>es. history (run_after (deferred_status_update K ns n) s) = history s @ es \<and>
     list_all (deferred_event (desired_status (cr s))) es \<and> length (filter status_write es) \<le> 3 \<and>
     (\<forall>latest. run_result (do_get_cr K ns n) s = Inr latest \<longrightarrow> status latest = desired_status (cr s) \<longrightarrow>
        filter status_write es = []))"
proof
  let ?st = "desired_status (cr s)" and ?s1 = "run_after (do_get_cr K ns n) s"
  have got: "history ?s1 = history s @ [Got_CR (failure (run_result (do_get_cr K ns n) s) = None)]"
    by (simp add: do_get_cr_def)
  have same: "cr ?s1 = cr s" by (simp add: do_get_cr_def)
  show "cr (run_after (deferred_status_update K ns n) s) = cr s"
    using same by (simp add: deferred_status_update_def write_status_cr split: sum.split)
  show "\<exists>es. history (run_after (deferred_status_update K ns n) s) = history s @ es \<and>
     list_all (deferred_event ?st) es \<and> length (filter status_write es) \<le> 3 \<and>
     (\<forall>latest. run_result (do_get_cr K ns n) s = Inr latest \<longrightarrow> status latest = ?st \<longrightarrow> filter status_write es = [])"
  proof (cases "\<exists>latest. run_result (do_get_cr K ns n) s = Inr latest \<and> status latest \<noteq> ?st")
    case True
    then obtain latest where l: "run_result (do_get_cr K ns n) s = Inr latest" "status latest \<noteq> ?st" by blast
    let ?w = "write_status K ns n max_status_retries ?st latest"
    obtain es where es: "history (run_after ?w ?s1) = history ?s1 @ es" "list_all (deferred_event ?st) es"
      using emitsD [OF emits_write_status_desired] by blast
    have "length (filter status_write (history (run_after ?w ?s1))) \<le> length (filter status_write (history ?s1)) + 3"
      using write_status_bound [of K ns n max_status_retries ?st latest ?s1] by (simp add: max_status_retries_def)
    moreover have "run_after (deferred_status_update K ns n) s = run_after ?w ?s1"
      using l same by (simp add: deferred_status_update_def)
    ultimately show ?thesis using es got l
      by (intro exI [of _ "Got_CR True # es"]) (simp add: deferred_event_def status_write_def)
  next
    case False
    then have "run_after (deferred_status_update K ns n) s = ?s1"
      using same by (auto simp: deferred_status_update_def split: sum.split)
    with got show ?thesis by (simp add: deferred_event_def status_write_def)
  qed
qed

theorem deferred_status_exact_witness:
  "\<exists>es. history (run_after (deferred_status_update sim_env ''default'' ''r'') sim_state) = es \<and> filter status_write es = []"
proof -
  have "run_result (do_get_cr sim_env ''default'' ''r'') sim_state = Inr sim_resource"
    "status sim_resource = desired_status (cr sim_state)" "history sim_state = []"
    by (simp_all add: do_get_cr_def sim_env_def sim_state_def sim_world_def desired_status_def sim_resource_def sim_status_def)
  with deferred_status_exact [of sim_env "''default''" "''r''" sim_state] show ?thesis by auto
qed

section \<open>Admitted resources are polled again\<close>

text \<open>The server's answer to a status update has the specification that was sent.\<close>

definition status_keeps_spec :: "('w, 'v, 'c) env \<Rightarrow> bool" where
  "status_keeps_spec K \<longleftrightarrow> (\<forall>x w x' w'. update_status K x w = (Inr x', w') \<longrightarrow> spec x' = spec x)"

lemma do_update_status_spec:
  "status_keeps_spec K \<Longrightarrow> spec (cr (run_after (do_update_status K) s)) = spec (cr s)"
  unfolding do_update_status_def status_keeps_spec_def
  by (cases "update_status K (cr s) (world s)") (auto split: sum.split)

lemma shouldReconcile_spec:
  assumes "status_keeps_spec K"
  shows "spec (cr (run_after (shouldReconcile K poll) s)) = spec (cr s)"
  using do_update_status_spec [OF assms]
  by (simp add: shouldReconcile_def check_for_changes_def now_def split: option.split sum.split)

lemma positive_change_interval: "positive_duration (changePollInterval cd) \<Longrightarrow> 0 < change_interval cd"
  using ParseDuration_not_blank [of "changePollInterval cd"]
  by (auto simp: positive_duration_def change_interval_def)

text \<open>C7: An admitted resource keeps being polled: if the API keeps specifications in status updates and the
  clock does not run behind the recorded check, a pass over an admitted resource that is not being deleted
  returns no error and a positive requeue interval that is at most the poll interval or the change
  interval, whatever the database, the cluster and the rows do.\<close>

theorem admitted_resource_polled_again:
  assumes "snd (ValidateCreate K d) = None" "status_keeps_spec K"
    and get: "run_result (do_get_cr K ns n) s = Inr d" and live: "\<not> deleting d"
    and "\<forall>t. lastChangeCheckTime (status d) = Some t \<longrightarrow>
      0 \<le> time_sub (fst (clock K (world (run_after (do_get_cr K ns n) s)))) t"
  shows "\<exists>poll. ParseDuration (pollInterval (spec d)) = Inr poll \<and>
    result_error (run_result (Reconcile K ns n) s) = None \<and> 0 < requeue_after (run_result (Reconcile K ns n) s) \<and>
    (requeue_after (run_result (Reconcile K ns n) s) \<le> poll \<or>
     (\<exists>cd. changeDetection (spec d) = Some cd \<and> cd_enabled cd \<and>
        requeue_after (run_result (Reconcile K ns n) s) \<le> change_interval cd))"
proof -
  have v: "spec_valid K (spec d)" using assms(1) admission_valid by blast
  then obtain poll where poll: "ParseDuration (pollInterval (spec d)) = Inr poll" "0 < poll"
    by (auto simp: spec_valid_def positive_duration_def)
  let ?f = "fetched K ns n (init_conditions d) s"
  let ?r = "run_result (Reconcile K ns n) s"
  have sp: "spec (cr ?f) = spec d" and last: "lastChangeCheckTime (status (cr ?f)) = lastChangeCheckTime (status d)"
    by (simp_all add: init_conditions_def split: option.split)
  have r: "?r = run_result (reconcile_live K) ?f" by (rule Reconcile_fetched(4) [OF get live])
  have err: "result_error ?r = None" unfolding r by (rule returnsD [OF live_no_error])
  obtain full wait where sh: "run_result (shouldReconcile K poll) ?f = (full, wait)" by (rule prod.exhaust)
  let ?f2 = "run_after (shouldReconcile K poll) ?f"
  have sp2: "spec (cr ?f2) = spec d" using shouldReconcile_spec [OF assms(2)] sp by simp
  show ?thesis
  proof (cases full)
    case True
    have "?r = run_result (full_pass K poll) ?f2"
      using r sh True poll sp by (simp add: reconcile_live_def)
    moreover obtain t where "run_result (full_pass K poll) ?f2 = requeue t" "pass_interval (cr ?f2) poll t"
      using full_pass_interval [of K poll ?f2] v sp2 by (auto simp: spec_valid_def)
    ultimately show ?thesis
      using pass_interval_bounds [OF poll(2)] poll err by auto
  next
    case False
    with sh have w: "run_result (shouldReconcile K poll) ?f = (False, wait)" by simp
    obtain cd where cd: "changeDetection (spec d) = Some cd" "cd_enabled cd"
      and "wait \<le> change_interval cd" "0 < wait \<longleftrightarrow> 0 < change_interval cd"
      using shouldReconcile_wait_bounds [OF w] sp assms(5) last by auto
    then have b: "0 < wait" "wait \<le> change_interval cd"
      using v positive_change_interval by (auto simp: spec_valid_def)
    have "?r = requeue wait"
      using r w poll sp by (simp add: reconcile_live_def skipped_pass_def)
    with b poll err cd show ?thesis by auto
  qed
qed

lemma sim_status_keeps_spec: "status_keeps_spec sim_env"
  by (simp add: status_keeps_spec_def sim_env_def)

theorem admitted_resource_polled_again_witness:
  "0 < requeue_after (run_result (Reconcile sim_env ''default'' ''r'') sim_state) \<and>
   requeue_after (run_result (Reconcile sim_env ''default'' ''r'') sim_state) \<le> 60 * second"
proof -
  have a: "snd (ValidateCreate sim_env sim_resource) = None" by code_simp
  have p: "ParseDuration (pollInterval (spec sim_resource)) = Inr (60 * second)" by code_simp
  have c: "changeDetection (spec sim_resource) = None" "lastChangeCheckTime (status sim_resource) = None"
    by (simp_all add: sim_resource_def sim_spec_def sim_status_def)
  from admitted_resource_polled_again [OF a sim_status_keeps_spec sim_live, of "''default''" "''r''"] p c
  show ?thesis by auto
qed

section \<open>No write without a query\<close>

text \<open>Every write of a child comes after a query that succeeded.\<close>

definition guarded :: "event list \<Rightarrow> bool" where
  "guarded es \<longleftrightarrow> (\<forall>pre e post. es = pre @ e # post \<longrightarrow> \<not> no_child_write e \<longrightarrow> (\<exists>q. Read_Query q True \<in> set pre))"

definition guards :: "('w, 'a) prog \<Rightarrow> bool" where
  "guards m \<longleftrightarrow> (\<forall>s. \<exists>es. history (run_after m s) = history s @ es \<and> guarded es)"

lemma guarded_quiet: "list_all no_child_write es \<Longrightarrow> guarded es"
  by (auto simp: guarded_def)

lemma guarded_append:
  assumes "list_all no_child_write es" "guarded fs \<or> (\<exists>q. Read_Query q True \<in> set es)"
  shows "guarded (es @ fs)"
  unfolding guarded_def
proof (intro allI impI)
  fix pre e post assume split: "es @ fs = pre @ e # post" and e: "\<not> no_child_write e"
  then have "e \<notin> set es" using assms(1) by (auto simp: list_all_iff)
  with split obtain mid where mid: "pre = es @ mid" "fs = mid @ e # post"
    by (auto simp: append_eq_append_conv2 append_eq_Cons_conv Cons_eq_append_conv)
  with assms(2) e show "\<exists>q. Read_Query q True \<in> set pre" unfolding guarded_def by auto
qed

lemma guards_quiet: "emits no_child_write m \<Longrightarrow> guards m"
  using emitsD guarded_quiet unfolding guards_def by blast

lemma guards_bind:
  assumes "emits no_child_write m" "\<And>a. guards (f a)"
  shows "guards (State_Monad.bind m f)"
  unfolding guards_def
proof
  fix s
  obtain es where es: "history (run_after m s) = history s @ es" "list_all no_child_write es"
    using emitsD [OF assms(1)] by blast
  obtain fs where fs: "history (run_after (f (run_result m s)) (run_after m s)) = history (run_after m s) @ fs" "guarded fs"
    using assms(2) unfolding guards_def by blast
  show "\<exists>es. history (run_after (State_Monad.bind m f) s) = history s @ es \<and> guarded es"
    using es fs guarded_append by (intro exI [of _ "es @ fs"]) simp
qed

lemma guards_then_quiet:
  assumes "guards m" "\<And>a. emits no_child_write (f a)"
  shows "guards (State_Monad.bind m f)"
  unfolding guards_def
proof
  fix s
  obtain es where es: "history (run_after m s) = history s @ es" "guarded es"
    using assms(1) unfolding guards_def by blast
  obtain fs where fs: "history (run_after (f (run_result m s)) (run_after m s)) = history (run_after m s) @ fs"
    "list_all no_child_write fs" using emitsD [OF assms(2)] by blast
  have "guarded (es @ fs)"
    unfolding guarded_def
  proof (intro allI impI)
    fix pre e post assume split: "es @ fs = pre @ e # post" and e: "\<not> no_child_write e"
    then have "e \<notin> set fs" using fs(2) by (auto simp: list_all_iff)
    with split obtain mid where "es = pre @ e # mid"
      by (auto simp: append_eq_append_conv2 append_eq_Cons_conv Cons_eq_append_conv)
    with es(2) e show "\<exists>q. Read_Query q True \<in> set pre" unfolding guarded_def by blast
  qed
  with es(1) fs(1) show "\<exists>es. history (run_after (State_Monad.bind m f) s) = history s @ es \<and> guarded es"
    by (intro exI [of _ "es @ fs"]) simp
qed

lemma guards_sum:
  "(\<And>e. x = Inl e \<Longrightarrow> guards (f e)) \<Longrightarrow> (\<And>y. x = Inr y \<Longrightarrow> guards (g y)) \<Longrightarrow>
   guards (case x of Inl e \<Rightarrow> f e | Inr y \<Rightarrow> g y)"
  by (cases x) simp_all

lemma guards_read:
  assumes "\<And>e. guards (f (Inl e))" "\<And>x. emits (\<lambda>_. True) (f (Inr x))"
  shows "guards (State_Monad.bind (client_read c q) f)"
  unfolding guards_def
proof
  fix s
  let ?r = "run_result (client_read c q) s" and ?s1 = "run_after (client_read c q) s"
  have h: "history ?s1 = history s @ [Read_Query q (failure ?r = None)]" by (simp add: client_read_def)
  have n: "list_all no_child_write [Read_Query q b]" for b by (simp add: no_child_write_def)
  obtain fs where fs: "history (run_after (f ?r) ?s1) = history ?s1 @ fs" "guarded fs \<or> failure ?r = None"
  proof (cases ?r)
    case (Inl e)
    then show ?thesis using assms(1) that unfolding guards_def by metis
  next
    case (Inr x)
    then show ?thesis using emitsD [OF assms(2)] that by (metis failure_simps(2))
  qed
  show "\<exists>es. history (run_after (State_Monad.bind (client_read c q) f) s) = history s @ es \<and> guarded es"
    using fs h guarded_append [OF n [of "failure ?r = None"], of fs] by auto
qed

lemma everything_allowed: "emits (\<lambda>_. True) (manage_rows K poll config rows)"
proof -
  have "emits (\<lambda>_. True) (prune_phase K keys)" for keys
    unfolding prune_phase_def collectAllChildResources_def
    by (intro emits_intros emits_pruneStaleResources emits_collect_objects) simp_all
  moreover have "emits (\<lambda>_. True) (process_rows K rows)" by (rule emits_mono [OF no_delete_parts(1)]) simp
  moreover have "emits (\<lambda>_. True) (collect_managed_children K)" by (rule emits_mono [OF no_delete_parts(2)]) simp
  moreover have "emits (\<lambda>_. True) (updateStatusForChildResources K objs config)" for objs
    by (rule emits_mono [OF no_delete_parts(3)]) simp
  moreover have "emits (\<lambda>_. True) (finish_pass K poll keys errors)" for keys errors
    by (rule emits_mono [OF no_delete_parts(4)]) simp
  ultimately show ?thesis unfolding manage_rows_def by (intro emits_intros)
qed

text \<open>C3: A full pass writes a child only after its query succeeded in the same pass: when the configuration
  cannot be read, the database is not reachable or the query fails, no object is created, updated or
  deleted, whatever the status lists.\<close>

theorem writes_need_query:
  "\<exists>es. history (run_after (full_pass K poll) s) = history s @ es \<and> guarded es"
proof -
  have c: "emits no_child_write (setCondition K t st r m)" for t st r m by (rule quiet.emits_condition)
  have conn: "guards (connected_pass K poll config db)" for config db
    unfolding connected_pass_def
    by (intro guards_bind [OF c] guards_bind [OF emits_read_cr] guards_read)
      (auto intro!: guards_quiet emits_intros c everything_allowed split: option.split)
  have close: "emits no_child_write (client_close db)" "emits no_child_write (open_client K d config)" for db d config
    by (intro emits_intros; simp add: no_child_write_def)+
  have "guards (full_pass K poll)"
    unfolding full_pass_def
    by (intro guards_bind [OF emits_read_cr] guards_bind [OF quiet.emits_config] guards_bind [OF close(2)]
        guards_sum guards_then_quiet [OF conn] guards_quiet emits_intros c close)
  then show ?thesis by (simp add: guards_def)
qed

section \<open>What an error shows\<close>






end
