(* ===== verification/Convergence.thy ===== *)
theory Convergence
  imports Pass_Results Simulation
begin

text \<open>
  The steady state: after a pass that brought every row's object to its desired state, a second pass
  over the same rows and an unchanged cluster writes no child. The cluster is quiet when reads change
  nothing, a successful write keeps the tracking annotation and touches no other object, and an update
  that conflicts changes nothing. The template of a resource is pure when its output depends on the row
  alone, which a template with \<open>now\<close> or \<open>uuidv4\<close> is not.
\<close>

section \<open>A quiet cluster\<close>

definition live_object :: "('w, 'v, 'c) env \<Rightarrow> 'w \<Rightarrow> unstructured \<Rightarrow> api_error + unstructured" where
  "live_object K w u = fst (get_object K (u_gvk u) (u_namespace u) (u_name u) w)"

definition applied_annotation :: "unstructured \<Rightarrow> string option" where
  "applied_annotation u = Option.bind (u_annotations u) (\<lambda>m. fmlookup m LastAppliedConfigAnnotation)"

definition stores :: "('w, 'v, 'c) env \<Rightarrow> unstructured \<Rightarrow> 'w \<Rightarrow> 'w \<Rightarrow> bool" where
  "stores K u w w' \<longleftrightarrow>
     (\<exists>x. live_object K w' u = Inr x \<and> applied_annotation x = applied_annotation u) \<and>
     (\<forall>v. \<not> same_object u v \<longrightarrow> live_object K w' v = live_object K w v)"

definition quiet_server :: "('w, 'v, 'c) env \<Rightarrow> bool" where
  "quiet_server K \<longleftrightarrow>
     (\<forall>g ns n w. snd (get_object K g ns n w) = w) \<and>
     (\<forall>u w x w'. apply_object K u w = (Inr x, w') \<longrightarrow> getObjectKey x = getObjectKey u \<and> stores K u w w') \<and>
     (\<forall>u w w'. update_object K u w = (None, w') \<longrightarrow> stores K u w w') \<and>
     (\<forall>u w e w'. update_object K u w = (Some e, w') \<longrightarrow> is_conflict e \<longrightarrow> w' = w)"

definition pure_template :: "('w, 'v, 'c) env \<Rightarrow> string \<Rightarrow> bool" where
  "pure_template K t \<longleftrightarrow>
     (\<forall>row w w'. snd (template_execute K ''resourceTemplate'' t (Row_Data row) w) = w \<and>
        fst (template_execute K ''resourceTemplate'' t (Row_Data row) w) =
        fst (template_execute K ''resourceTemplate'' t (Row_Data row) w'))"

text \<open>Whether a kind is namespaced does not change.\<close>

definition stable_scopes :: "('w, 'v, 'c) env \<Rightarrow> bool" where
  "stable_scopes K \<longleftrightarrow>
     (\<forall>g w w'. snd (scope_name K g w) = w \<and> fst (scope_name K g w) = fst (scope_name K g w'))"

text \<open>The object a row stands for, when it renders.\<close>

definition desired_object :: "('w, 'v, 'c) env \<Rightarrow> dbqr \<Rightarrow> 'w \<Rightarrow> 'v smap \<Rightarrow> unstructured option" where
  "desired_object K d w row =
     (case fst (template_execute K ''resourceTemplate'' (resource_template (spec d)) (Row_Data row) w) of
        Inl _ \<Rightarrow> None
      | Inr rendered \<Rightarrow>
          (case yaml_decode K rendered of
             Inl _ \<Rightarrow> None
           | Inr obj \<Rightarrow>
               (case fst (scope_name K (u_gvk obj) w) of
                  Inl _ \<Rightarrow> None
                | Inr scope \<Rightarrow>
                    (case own_object K d (scope = ''namespace'') obj of Inl _ \<Rightarrow> None | Inr u \<Rightarrow> Some u))))"

text \<open>The live object is up to date; a write to it would settle.\<close>

definition up_to_date :: "('w, 'v, 'c) env \<Rightarrow> 'w \<Rightarrow> unstructured \<Rightarrow> bool" where
  "up_to_date K w obj \<longleftrightarrow> (\<exists>x. live_object K w obj = Inr x \<and> needs_update K x obj = Inr False)"

definition settles :: "unstructured \<Rightarrow> unstructured \<Rightarrow> bool" where
  "settles obj x \<longleftrightarrow> config_plain (config_of (applyDesiredState x obj)) \<and> (\<forall>k. \<not> unsettled x obj k)"

definition tame :: "('w, 'v, 'c) env \<Rightarrow> 'w \<Rightarrow> unstructured \<Rightarrow> bool" where
  "tame K w obj \<longleftrightarrow> config_plain (config_of obj) \<and> (\<forall>x. live_object K w obj = Inr x \<longrightarrow> settles obj x)"

section \<open>Reads and writes\<close>

lemma same_object_live: "same_object u v \<Longrightarrow> live_object K w u = live_object K w v"
  by (simp add: same_object_def live_object_def)

lemma same_object_sym: "same_object u v \<Longrightarrow> same_object v u"
  by (simp add: same_object_def)

lemma same_object_key: "same_object u v \<Longrightarrow> getObjectKey u = getObjectKey v"
  by (simp add: same_object_def getObjectKey_def)

lemma get_live: "run_result (do_get K (u_gvk obj) (u_namespace obj) (u_name obj)) s = live_object K (world s) obj"
  by (simp add: do_get_def live_object_def)

lemma get_world: "quiet_server K \<Longrightarrow> world (run_after (do_get K g ns n) s) = world s"
  by (simp add: do_get_def quiet_server_def)

lemma needs_update_annotation:
  "applied_annotation x = applied_annotation u \<Longrightarrow> needs_update K x obj = needs_update K u obj"
  unfolding needs_update_def getLastAppliedConfig_def applied_annotation_def
  by (cases "u_annotations x"; cases "u_annotations u") (auto split: option.split)

text \<open>What a write of the tracked desired state leaves behind.\<close>

lemma stores_up_to_date:
  assumes "stores K u w w'" "same_object u obj" "needs_update K u obj = Inr False"
  shows "up_to_date K w' obj"
  using assms needs_update_annotation same_object_live unfolding stores_def up_to_date_def by metis

lemma settled_write:
  assumes "setLastAppliedConfig (applyDesiredState x obj) = Inr u" "settles obj x" "config_plain (config_of obj)"
    and "same_object x obj"
  shows "needs_update K u obj = Inr False \<and> same_object u obj"
  using needs_update_stored [OF _ assms(1,3), of K] settled_iff [of x obj] assms(2,4)
    setLastAppliedConfig_keeps [OF assms(1)]
  by (simp add: settles_def same_object_def)

lemma created_write:
  assumes "setLastAppliedConfig obj = Inr u" "config_plain (config_of obj)"
  shows "needs_update K u obj = Inr False \<and> same_object u obj"
  using needs_update_stored [OF assms(2,1,2), of K] setLastAppliedConfig_keeps [OF assms(1)]
  by (simp add: same_object_def)

text \<open>A successful update stores such a state, whatever number of attempts it took.\<close>

lemma update_attempts_stores:
  assumes q: "quiet_server K" and f: "get_faithful K"
  shows "run_result (update_attempts K n lastErr x obj) s = None \<Longrightarrow> 0 < n \<Longrightarrow> tame K (world s) obj \<Longrightarrow>
    settles obj x \<Longrightarrow> same_object x obj \<Longrightarrow>
    \<exists>u. needs_update K u obj = Inr False \<and> same_object u obj \<and>
      stores K u (world s) (world (run_after (update_attempts K n lastErr x obj) s))"
proof (induction n arbitrary: lastErr x s)
  case (Suc n)
  then obtain u where u: "setLastAppliedConfig (applyDesiredState x obj) = Inr u"
    by (cases "setLastAppliedConfig (applyDesiredState x obj)") auto
  note w = settled_write [OF u Suc.prems(4) _ Suc.prems(5)]
  let ?s1 = "run_after (do_update K u) s"
  let ?get = "do_get K (u_gvk obj) (u_namespace obj) (u_name obj)"
  show ?case
  proof (cases "run_result (do_update K u) s")
    case None
    then have "update_object K u (world s) = (None, world ?s1)" by (simp add: do_update_def prod_eq_iff)
    then have "stores K u (world s) (world ?s1)" using q unfolding quiet_server_def by blast
    with None u w Suc.prems(3) show ?thesis by (auto simp: tame_def)
  next
    case (Some err)
    then have *: "update_object K u (world s) = (Some err, world ?s1)" by (simp add: do_update_def prod_eq_iff)
    have c: "is_conflict err" "n \<noteq> 0" using Suc.prems(1) u Some by (auto split: if_splits)
    with * have same: "world ?s1 = world s" using q unfolding quiet_server_def by blast
    obtain fresh where fresh: "run_result ?get ?s1 = Inr fresh"
      using Suc.prems(1) u Some c by (cases "run_result ?get ?s1") auto
    let ?s2 = "run_after ?get ?s1"
    have w2: "world ?s2 = world s" using get_world [OF q] same by simp
    have "live_object K (world s) obj = Inr fresh" using fresh same by (simp add: get_live)
    then have "settles obj fresh" using Suc.prems(3) by (simp add: tame_def)
    moreover have "same_object fresh obj"
      using do_get_faithful [OF f fresh] by (simp add: same_object_def)
    ultimately show ?thesis
      using Suc.IH [of "Some (error_text err)" fresh ?s2] Suc.prems(1,3) u Some c fresh w2 by simp
  qed
qed simp

lemma apply_apply: "applyDesiredState (applyDesiredState x obj) obj = applyDesiredState x obj"
  by (rule unstructured_eqI)
    (simp_all add: applyDesiredState_fields members_apply_idem merge_annotations_idem)

lemma settles_apply: "settles obj x \<Longrightarrow> settles obj (applyDesiredState x obj)"
  using settled_iff [of x obj] settled_iff [of "applyDesiredState x obj" obj]
  by (simp add: settles_def apply_apply)

section \<open>One row\<close>

lemma should_update_live:
  "run_result (shouldUpdateResource K obj) s =
     (case live_object K (world s) obj of
        Inl err \<Rightarrow> if is_not_found err then Inr True else Inl (''failed to get existing resource: '' @ error_text err)
      | Inr x \<Rightarrow> needs_update K x obj)"
  by (simp add: shouldUpdateResource_def get_live)

lemma should_update_world: "quiet_server K \<Longrightarrow> world (run_after (shouldUpdateResource K obj) s) = world s"
  by (simp add: shouldUpdateResource_def get_world)

text \<open>An object that is up to date is left alone.\<close>

lemma apply_up_to_date:
  assumes "quiet_server K" "up_to_date K (world s) obj"
  shows "run_result (apply_row_object K obj) s = Inr (getObjectKey obj)"
    and "run_after (apply_row_object K obj) s = run_after (shouldUpdateResource K obj) s"
proof -
  have "run_result (shouldUpdateResource K obj) s = Inr False"
    using assms(2) by (auto simp: should_update_live up_to_date_def)
  then show "run_result (apply_row_object K obj) s = Inr (getObjectKey obj)"
    "run_after (apply_row_object K obj) s = run_after (shouldUpdateResource K obj) s"
    by (simp_all add: apply_row_object_def)
qed

text \<open>A row that succeeds leaves its object up to date and the objects of other keys as they were.\<close>

definition only_touches :: "('w, 'v, 'c) env \<Rightarrow> unstructured \<Rightarrow> 'w \<Rightarrow> 'w \<Rightarrow> bool" where
  "only_touches K obj w w' \<longleftrightarrow> (\<forall>v. \<not> same_object obj v \<longrightarrow> live_object K w' v = live_object K w v)"

lemma stores_only_touches: "stores K u w w' \<Longrightarrow> same_object u obj \<Longrightarrow> only_touches K obj w w'"
  by (auto simp: stores_def only_touches_def same_object_def)

lemma apply_row_settles:
  assumes q: "quiet_server K" and f: "get_faithful K" and t: "tame K (world s) obj"
    and r: "run_result (apply_row_object K obj) s = Inr key"
  shows "key = getObjectKey obj \<and> up_to_date K (world (run_after (apply_row_object K obj) s)) obj \<and>
    only_touches K obj (world s) (world (run_after (apply_row_object K obj) s))"
proof -
  let ?s1 = "run_after (shouldUpdateResource K obj) s"
  let ?get = "do_get K (u_gvk obj) (u_namespace obj) (u_name obj)"
  let ?s2 = "run_after ?get ?s1"
  have w: "world ?s1 = world s" "world ?s2 = world s"
    using should_update_world [OF q] get_world [OF q] by simp_all
  have plain: "config_plain (config_of obj)" using t by (simp add: tame_def)
  obtain needed where needed: "run_result (shouldUpdateResource K obj) s = Inr needed"
    using r by (cases "run_result (shouldUpdateResource K obj) s") (auto simp: apply_row_object_def)
  show ?thesis
  proof (cases needed)
    case False
    then have "up_to_date K (world s) obj"
      using needed by (auto simp: should_update_live up_to_date_def split: sum.splits if_splits)
    then show ?thesis
      using r apply_up_to_date [OF q, of s obj] w by (simp add: only_touches_def)
  next
    case True
    show ?thesis
    proof (cases "run_result ?get ?s1")
      case (Inl err)
      with r needed True have nf: "is_not_found err" and c: "run_result (create_object K obj) ?s2 = Inr key"
        by (auto simp: apply_row_object_def split: if_splits)
      from c obtain u where u: "setLastAppliedConfig obj = Inr u"
        by (cases "setLastAppliedConfig obj") (auto simp: create_object_def)
      from c u obtain x where x: "run_result (do_apply K u) ?s2 = Inr x" "key = getObjectKey x"
        by (cases "run_result (do_apply K u) ?s2") (auto simp: create_object_def)
      let ?w = "world (run_after (do_apply K u) ?s2)"
      have a: "run_after (apply_row_object K obj) s = run_after (do_apply K u) ?s2"
        using needed True Inl nf u by (simp add: apply_row_object_def create_object_def)
      have "apply_object K u (world s) = (Inr x, ?w)"
        using x(1) w(2) by (simp add: do_apply_def prod_eq_iff)
      then have st: "getObjectKey x = getObjectKey u" "stores K u (world s) ?w"
        using q unfolding quiet_server_def by blast+
      note cw = created_write [OF u plain, of K]
      show ?thesis
        using st x(2) cw stores_up_to_date [OF st(2)] stores_only_touches [OF st(2)] same_object_key [of u obj] a by simp
    next
      case (Inr x)
      let ?upd = "update_attempts K max_update_retries None (applyDesiredState x obj) obj"
      have none: "run_result ?upd ?s2 = None" and key: "key = getObjectKey obj"
        using r needed True Inr by (auto simp: apply_row_object_def updateWithConflictRetry_def split: option.splits)
      have a: "run_after (apply_row_object K obj) s = run_after ?upd ?s2"
        using needed True Inr by (simp add: apply_row_object_def updateWithConflictRetry_def)
      have "settles obj x" using Inr t w(1) by (simp add: get_live tame_def)
      then have "settles obj (applyDesiredState x obj)" by (rule settles_apply)
      moreover have "same_object (applyDesiredState x obj) obj"
        using do_get_faithful [OF f Inr] by (simp add: same_object_def)
      ultimately obtain u where u: "needs_update K u obj = Inr False" "same_object u obj"
        "stores K u (world s) (world (run_after ?upd ?s2))"
        using update_attempts_stores [OF q f none] t w by (auto simp: max_update_retries_def)
      then show ?thesis
        using key stores_up_to_date [OF u(3,2,1)] stores_only_touches [OF u(3,2)] a by simp
    qed
  qed
qed

section \<open>All rows\<close>

text \<open>The state in which the object of a row is applied.\<close>

definition placed :: "('w, 'v, 'c) env \<Rightarrow> 'v smap \<Rightarrow> 'w rs \<Rightarrow> 'w rs" where
  "placed K row s =
     (case run_result (render_row K row) s of
        Inl _ \<Rightarrow> run_after (render_row K row) s
      | Inr obj \<Rightarrow> run_after (place_object K obj) (run_after (render_row K row) s))"

lemma process_row_desired:
  assumes "pure_template K (resource_template (spec (cr s)))" "stable_scopes K"
    and "desired_object K (cr s) w0 row = Some obj"
  shows "run_result (process_row K row) s = run_result (apply_row_object K obj) (placed K row s)"
    and "run_after (process_row K row) s = run_after (apply_row_object K obj) (placed K row s)"
    and "world (placed K row s) = world s" "cr (placed K row s) = cr s"
    and "\<exists>es. history (placed K row s) = history s @ es \<and> list_all no_child_write es"
proof -
  obtain rendered obj0 scope where r:
    "fst (template_execute K ''resourceTemplate'' (resource_template (spec (cr s))) (Row_Data row) w0) = Inr rendered"
    "yaml_decode K rendered = Inr obj0" "fst (scope_name K (u_gvk obj0) w0) = Inr scope"
    "own_object K (cr s) (scope = ''namespace'') obj0 = Inr obj"
    using assms(3) by (auto simp: desired_object_def split: sum.splits)
  let ?exec = "template_execute K ''resourceTemplate'' (resource_template (spec (cr s)))"
  have p: "fst (?exec (Row_Data row) w) = fst (?exec (Row_Data row) w0)" "snd (?exec (Row_Data row) w) = w"
    "fst (scope_name K g w) = fst (scope_name K g w0)" "snd (scope_name K g w) = w" for g w
    using assms(1,2) unfolding pure_template_def stable_scopes_def by blast+
  have render: "run_result (render_row K row) s = Inr obj0" "world (run_after (render_row K row) s) = world s"
    "cr (run_after (render_row K row) s) = cr s"
    using r(2) p(2) trans [OF p(1) r(1), of "world s"] by (simp_all add: render_row_def execute_template_def)
  have place: "run_result (place_object K obj0) s' = Inr obj" if "cr s' = cr s" for s'
    using r(3,4) p(3) [of "u_gvk obj0" "world s'"] that by (simp add: place_object_def)
  show "run_result (process_row K row) s = run_result (apply_row_object K obj) (placed K row s)"
    "run_after (process_row K row) s = run_after (apply_row_object K obj) (placed K row s)"
    using render place [of "run_after (render_row K row) s"] by (simp_all add: process_row_def placed_def)
  show "world (placed K row s) = world s" "cr (placed K row s) = cr s"
    using render p(2,4) by (simp_all add: placed_def place_object_def)
  show "\<exists>es. history (placed K row s) = history s @ es \<and> list_all no_child_write es"
    using render by (simp add: placed_def render_row_def place_object_def execute_template_def no_child_write_def)
qed

lemma distinct_keys_differ:
  "distinct (map getObjectKey (obj # objs)) \<Longrightarrow> v \<in> set objs \<Longrightarrow> \<not> same_object obj v"
  using same_object_key by force

lemma only_touches_kept:
  assumes "only_touches K obj w w'" "\<not> same_object obj v"
  shows "tame K w' v \<longleftrightarrow> tame K w v" "up_to_date K w' v \<longleftrightarrow> up_to_date K w v"
  using assms by (simp_all add: only_touches_def tame_def up_to_date_def)

text \<open>A row loop without errors leaves all its objects up to date.\<close>

lemma process_rows_settle:
  assumes q: "quiet_server K" "get_faithful K" "stable_scopes K"
  shows "pure_template K (resource_template (spec (cr s))) \<Longrightarrow>
    list_all2 (\<lambda>row obj. desired_object K (cr s) w0 row = Some obj) rows objs \<Longrightarrow>
    distinct (map getObjectKey objs) \<Longrightarrow> list_all (tame K (world s)) objs \<Longrightarrow>
    run_result (process_rows K rows) s = (keys, []) \<Longrightarrow>
    keys = fset_of_list (map getObjectKey objs) \<and> list_all (up_to_date K (world (run_after (process_rows K rows) s))) objs \<and>
    (\<forall>v. (\<forall>obj \<in> set objs. \<not> same_object obj v) \<longrightarrow>
       live_object K (world (run_after (process_rows K rows) s)) v = live_object K (world s) v)"
proof (induction rows arbitrary: objs s keys)
  case (Cons row rows)
  obtain obj objs' where objs: "objs = obj # objs'" using Cons.prems(2) by (cases objs) auto
  have d: "desired_object K (cr s) w0 row = Some obj"
    "list_all2 (\<lambda>row obj. desired_object K (cr s) w0 row = Some obj) rows objs'"
    using Cons.prems(2) objs by auto
  note pr = process_row_desired [OF Cons.prems(1) q(3) d(1)]
  let ?s1 = "run_after (process_row K row) s"
  obtain key where key: "run_result (process_row K row) s = Inr key"
    using Cons.prems(5) unfolding process_rows_Cons by (cases "run_result (process_row K row) s") (auto simp: apsnd_def map_prod_def split: prod.splits)
  obtain keys' where rest: "run_result (process_rows K rows) ?s1 = (keys', [])" "keys = finsert key keys'"
    using Cons.prems(5) key unfolding process_rows_Cons
    by (cases "run_result (process_rows K rows) ?s1") auto
  have t: "tame K (world (placed K row s)) obj" using Cons.prems(4) objs pr(3) by simp
  note row = apply_row_settles [OF q(1,2) t, of key]
  have h: "key = getObjectKey obj" "up_to_date K (world ?s1) obj" "only_touches K obj (world s) (world ?s1)"
    using row key pr(1-3) by simp_all
  have differ: "\<not> same_object obj v" if "v \<in> set objs'" for v
    using distinct_keys_differ Cons.prems(3) objs that by blast
  have "list_all (tame K (world ?s1)) objs'"
    using Cons.prems(4) objs only_touches_kept(1) [OF h(3) differ] by (auto simp: list_all_iff)
  moreover have "list_all2 (\<lambda>row obj. desired_object K (cr ?s1) w0 row = Some obj) rows objs'" using d(2) by simp
  moreover have "pure_template K (resource_template (spec (cr ?s1)))" using Cons.prems(1) by simp
  ultimately have IH: "keys' = fset_of_list (map getObjectKey objs')"
    "list_all (up_to_date K (world (run_after (process_rows K rows) ?s1))) objs'"
    "\<forall>v. (\<forall>obj \<in> set objs'. \<not> same_object obj v) \<longrightarrow>
       live_object K (world (run_after (process_rows K rows) ?s1)) v = live_object K (world ?s1) v"
    using Cons.IH [OF _ _ _ _ rest(1)] Cons.prems(3) objs by simp_all
  have "\<forall>v \<in> set objs'. \<not> same_object v obj" using differ same_object_sym by blast
  then have "up_to_date K (world (run_after (process_rows K rows) ?s1)) obj"
    using IH(3) h(2) by (simp add: up_to_date_def)
  moreover have "run_after (process_rows K (row # rows)) s = run_after (process_rows K rows) ?s1"
    by (simp add: split_def)
  ultimately show ?case
    using IH h rest(2) objs by (auto simp: only_touches_def simp del: process_rows.simps)
qed simp

text \<open>A row loop whose objects are all up to date writes nothing.\<close>

lemma process_rows_quiet:
  assumes q: "quiet_server K" "stable_scopes K"
  shows "pure_template K (resource_template (spec (cr s))) \<Longrightarrow>
    list_all2 (\<lambda>row obj. desired_object K (cr s) w0 row = Some obj) rows objs \<Longrightarrow>
    list_all (up_to_date K (world s)) objs \<Longrightarrow>
    run_result (process_rows K rows) s = (fset_of_list (map getObjectKey objs), []) \<and>
    world (run_after (process_rows K rows) s) = world s \<and>
    (\<exists>es. history (run_after (process_rows K rows) s) = history s @ es \<and> list_all no_child_write es)"
proof (induction rows arbitrary: objs s)
  case (Cons row rows)
  obtain obj objs' where objs: "objs = obj # objs'" using Cons.prems(2) by (cases objs) auto
  have d: "desired_object K (cr s) w0 row = Some obj" using Cons.prems(2) objs by auto
  note pr = process_row_desired [OF Cons.prems(1) q(2) d]
  let ?s1 = "run_after (process_row K row) s"
  have up: "up_to_date K (world (placed K row s)) obj" using Cons.prems(3) objs pr(3) by simp
  note row = apply_up_to_date [OF q(1) up]
  have w: "world ?s1 = world s" using pr(2,3) row(2) should_update_world [OF q(1)] by simp
  obtain es where es: "history (placed K row s) = history s @ es" "list_all no_child_write es" using pr(5) by blast
  have h1: "\<exists>r. history ?s1 = history s @ es @ [Got (u_gvk obj) (u_namespace obj) (u_name obj) r]"
    using pr(2) row(2) es(1) by (simp add: shouldUpdateResource_def do_get_def)
  have d': "list_all2 (\<lambda>row obj. desired_object K (cr ?s1) w0 row = Some obj) rows objs'"
    using Cons.prems(2) objs by simp
  have t: "pure_template K (resource_template (spec (cr ?s1)))" using Cons.prems(1) by simp
  from Cons.IH [OF t d'] Cons.prems(3) objs w have IH:
    "run_result (process_rows K rows) ?s1 = (fset_of_list (map getObjectKey objs'), [])"
    "world (run_after (process_rows K rows) ?s1) = world s"
    "\<exists>fs. history (run_after (process_rows K rows) ?s1) = history ?s1 @ fs \<and> list_all no_child_write fs"
    by simp_all
  have a: "run_after (process_rows K (row # rows)) s = run_after (process_rows K rows) ?s1" by (simp add: split_def)
  have "run_result (process_row K row) s = Inr (getObjectKey obj)" using pr(1) row(1) by simp
  then have "run_result (process_rows K (row # rows)) s = (fset_of_list (map getObjectKey objs), [])"
    unfolding process_rows_Cons using IH(1) objs by simp
  moreover have "\<exists>fs. history (run_after (process_rows K rows) ?s1) = history s @ fs \<and> list_all no_child_write fs"
    using h1 IH(3) es(2) by (auto simp: no_child_write_def)
  ultimately show ?case unfolding a using IH(2) by simp
qed simp

section \<open>Properties\<close>

text \<open>C6: Steady state. A row loop without errors leaves every object up to date, and a second loop over the
  same rows returns the same keys, no error, and writes no child at all. Assumed: a quiet server (reads
  change nothing; a successful write keeps the tracking annotation and touches no other object; a
  conflicting update changes nothing) whose get returns the object asked for; scopes of kinds that do not
  change; the resource's own template renders from the row alone (no \<open>now\<close>, \<open>uuidv4\<close>, random
  functions); the rows render to objects of different keys; each of these objects is tame: its
  configuration, and the one an update would write, has whole numbers below 2^53 and valid UTF-8 strings
  only, no annotation is set on the live object alone, and no desired annotation has an empty value (with
  one of those the object is written on every pass).\<close>

theorem steady_state:
  assumes "quiet_server K" "get_faithful K" "stable_scopes K" "pure_template K (resource_template (spec (cr s)))"
    and "list_all2 (\<lambda>row obj. desired_object K (cr s) w0 row = Some obj) rows objs"
    and "distinct (map getObjectKey objs)" "list_all (tame K (world s)) objs"
    and "run_result (process_rows K rows) s = (keys, [])"
  defines "s1 \<equiv> run_after (process_rows K rows) s"
  shows "list_all (up_to_date K (world s1)) objs \<and> run_result (process_rows K rows) s1 = (keys, []) \<and>
    (\<exists>es. history (run_after (process_rows K rows) s1) = history s1 @ es \<and> list_all no_child_write es)"
proof -
  note first = process_rows_settle [OF assms(1-8)]
  then have up: "list_all (up_to_date K (world s1)) objs" and k: "keys = fset_of_list (map getObjectKey objs)"
    by (simp_all add: s1_def)
  have "list_all2 (\<lambda>row obj. desired_object K (cr s1) w0 row = Some obj) rows objs"
    "pure_template K (resource_template (spec (cr s1)))"
    using assms(4,5) by (simp_all add: s1_def)
  from process_rows_quiet [OF assms(1,3) this(2,1) up] up k show ?thesis by simp
qed

text \<open>The object of the simulated row, and the simulated server as a quiet one.\<close>

definition sim_desired :: unstructured where
  "sim_desired = (sim_manifest ''a'')\<lparr>u_namespace := ''default'', u_labels := Some (fmupd ManagedByLabel ''r'' fmempty)\<rparr>"

lemma sim_lookup_store: "same_object u v \<Longrightarrow> sim_lookup (sim_store u w) (u_gvk v) (u_namespace v) (u_name v) = Some u"
  by (simp add: sim_lookup_def sim_store_def same_object_def)

lemma sim_lookup_other:
  assumes "\<not> same_object u v"
  shows "sim_lookup (sim_store u w) (u_gvk v) (u_namespace v) (u_name v) = sim_lookup w (u_gvk v) (u_namespace v) (u_name v)"
proof -
  let ?P = "\<lambda>x. u_gvk x = u_gvk v \<and> u_namespace x = u_namespace v \<and> u_name x = u_name v"
  have "List.find ?P (filter (\<lambda>x. \<not> same_object u x) xs) = List.find ?P xs" for xs
    using assms by (induction xs) (auto simp: same_object_def)
  moreover have "\<not> ?P u" using assms by (auto simp: same_object_def)
  ultimately show ?thesis by (auto simp: sim_lookup_def sim_store_def)
qed

lemma sim_stores: "stores sim_env u w (sim_store u w)"
  using sim_lookup_store [of u u w] sim_lookup_other [of u _ w]
  by (simp add: stores_def live_object_def sim_env_def same_object_def)

lemma sim_quiet: "quiet_server sim_env" "stable_scopes sim_env" "get_faithful sim_env" "pure_template sim_env t"
proof -
  have "apply_object sim_env u w = (Inr u, sim_store u w)" "update_object sim_env u w = (None, sim_store u w)"
    "snd (get_object sim_env g ns n w) = w" for u w g ns n
    by (simp_all add: sim_env_def)
  then show "quiet_server sim_env" using sim_stores by (simp add: quiet_server_def)
  show "stable_scopes sim_env" "pure_template sim_env t"
    by (simp_all add: stable_scopes_def pure_template_def sim_env_def)
  show "get_faithful sim_env"
    by (auto simp: get_faithful_def sim_env_def sim_lookup_def find_Some_iff split: option.splits)
qed

lemma sim_desired_object: "desired_object sim_env sim_resource w0 (fmupd ''name'' ''a'' fmempty) = Some sim_desired"
  by (simp add: desired_object_def own_object_def Let_def sim_env_def sim_render_def sim_manifest_def sim_desired_def
      sim_resource_def)

lemma sim_desired_tame: "tame sim_env sim_world sim_desired"
proof -
  have "live_object sim_env sim_world sim_desired = Inl (NotFound ''a'')"
    by (simp add: live_object_def sim_env_def sim_lookup_def sim_world_def sim_child_def sim_manifest_def sim_desired_def)
  moreover have "config_plain (config_of sim_desired)"
    by (auto simp: config_plain_def config_of_def sim_desired_def sim_manifest_def obj_field_def plain_map_def
        ManagedByLabel_def ascii_valid_utf8 ascii_def split: if_splits)
  ultimately show ?thesis by (simp add: tame_def)
qed

lemma sim_first_loop:
  "\<exists>key. run_result (process_rows sim_env [fmupd ''name'' ''a'' fmempty]) sim_state = ({|key|}, [])"
proof -
  have cr: "cr sim_state = sim_resource" "world sim_state = sim_world" by (simp_all add: sim_state_def)
  note pr = process_row_desired [OF sim_quiet(4,2), of sim_state sim_world "fmupd ''name'' ''a'' fmempty" sim_desired,
      unfolded cr(1), OF sim_desired_object]
  have live: "live_object sim_env sim_world sim_desired = Inl (NotFound ''a'')"
    by (simp add: live_object_def sim_env_def sim_lookup_def sim_world_def sim_child_def sim_manifest_def sim_desired_def)
  obtain u where u: "setLastAppliedConfig sim_desired = Inr u"
    using sim_desired_tame setLastAppliedConfig_total by (auto simp: tame_def)
  have a: "fst (apply_object sim_env u w) = Inr u" for u w by (simp add: sim_env_def)
  let ?s = "placed sim_env (fmupd ''name'' ''a'' fmempty) sim_state"
  have w: "world ?s = sim_world" "world (run_after (shouldUpdateResource sim_env sim_desired) ?s) = sim_world"
    using pr(3) cr(2) should_update_world [OF sim_quiet(1)] by simp_all
  have n: "run_result (shouldUpdateResource sim_env sim_desired) ?s = Inr True"
    using w live by (simp add: should_update_live)
  have g: "run_result (do_get sim_env (u_gvk sim_desired) (u_namespace sim_desired) (u_name sim_desired))
      (run_after (shouldUpdateResource sim_env sim_desired) ?s) = Inl (NotFound ''a'')"
    using w live by (simp add: get_live)
  have "\<exists>key. run_result (apply_row_object sim_env sim_desired) ?s = Inr key"
    using n g u a by (simp add: apply_row_object_def create_object_def do_apply_def)
  then obtain key where "run_result (process_row sim_env (fmupd ''name'' ''a'' fmempty)) sim_state = Inr key" using pr(1) by auto
  then have r: "run_result (process_rows sim_env [fmupd ''name'' ''a'' fmempty]) sim_state = ({|key|}, [])" unfolding process_rows_Cons by simp
  then show ?thesis by blast
qed

theorem steady_state_witness:
  "\<exists>keys es. run_result (process_rows sim_env [fmupd ''name'' ''a'' fmempty])
       (run_after (process_rows sim_env [fmupd ''name'' ''a'' fmempty]) sim_state) = (keys, []) \<and>
     history (run_after (process_rows sim_env [fmupd ''name'' ''a'' fmempty])
       (run_after (process_rows sim_env [fmupd ''name'' ''a'' fmempty]) sim_state)) =
       history (run_after (process_rows sim_env [fmupd ''name'' ''a'' fmempty]) sim_state) @ es \<and>
     list_all no_child_write es"
proof -
  let ?rows = "[fmupd ''name'' ''a'' fmempty :: string smap]"
  have cr: "cr sim_state = sim_resource" "world sim_state = sim_world" by (simp_all add: sim_state_def)
  have d: "list_all2 (\<lambda>row obj. desired_object sim_env (cr sim_state) sim_world row = Some obj) ?rows [sim_desired]"
    by (simp add: cr sim_desired_object)
  obtain key where r: "run_result (process_rows sim_env ?rows) sim_state = ({|key|}, [])"
    using sim_first_loop by blast
  have "distinct (map getObjectKey [sim_desired])" "list_all (tame sim_env (world sim_state)) [sim_desired]"
    using sim_desired_tame cr by simp_all
  from steady_state [OF sim_quiet(1,3,2,4) d this r] show ?thesis by blast
qed

end
