(* ===== verification/Kept_Worlds.thy ===== *)
theory Kept_Worlds
  imports Pass_Results Postgres
begin

text \<open>
  A property of worlds that the calls of the operator keep: what that means for the clients of the
  database, and which parts of a pass keep it when the calls they make do. \<open>run_inv\<close> is such a property
  together with one of the list of managed resources in the local copy of the resource.
\<close>

section \<open>Calls\<close>

definition calls_keep :: "('w \<Rightarrow> bool) \<Rightarrow> ('w \<Rightarrow> 'a \<times> 'w) \<Rightarrow> bool" where
  "calls_keep I f \<longleftrightarrow> (\<forall>w. I w \<longrightarrow> I (snd (f w)))"

definition client_keeps :: "('w \<Rightarrow> bool) \<Rightarrow> ('w, 'v) db_client \<Rightarrow> bool" where
  "client_keeps I c \<longleftrightarrow> (\<forall>q. calls_keep I (query_read c q)) \<and> (\<forall>q. calls_keep I (db_exec c q)) \<and>
     calls_keep I (db_close c)"

definition drivers_keep :: "('w, 'v, 'c) env \<Rightarrow> ('w \<Rightarrow> bool) \<Rightarrow> bool" where
  "drivers_keep K I \<longleftrightarrow>
     (\<forall>f ty config w. client_factory K = Some f \<longrightarrow> I w \<longrightarrow>
        I (snd (f ty config w)) \<and> (\<forall>c. fst (f ty config w) = Inr c \<longrightarrow> client_keeps I c)) \<and>
     (\<forall>s. calls_keep I (pgx_connect K s)) \<and> (\<forall>c q. calls_keep I (pgx_query K c q)) \<and>
     (\<forall>c qs. calls_keep I (pgx_batch K c qs)) \<and> (\<forall>c q. calls_keep I (pgx_exec K c q)) \<and>
     (\<forall>c. calls_keep I (pgx_close K c))"

text \<open>The calls of a pass that write nothing to the cluster.\<close>

definition reads_keep :: "('w, 'v, 'c) env \<Rightarrow> ('w \<Rightarrow> bool) \<Rightarrow> bool" where
  "reads_keep K I \<longleftrightarrow>
     (\<forall>ns n. calls_keep I (get_secret K ns n)) \<and> (\<forall>g ns n. calls_keep I (get_object K g ns n)) \<and>
     calls_keep I (clock K) \<and> (\<forall>n t data. calls_keep I (template_execute K n t data)) \<and> drivers_keep K I"

section \<open>Programs\<close>

definition run_inv :: "('w \<Rightarrow> bool) \<Rightarrow> (string list option \<Rightarrow> bool) \<Rightarrow> 'w rs \<Rightarrow> bool" where
  "run_inv I P s \<longleftrightarrow> I (world s) \<and> P (managedResources (status (cr s)))"

lemma keeps_run_call: "calls_keep I f \<Longrightarrow> keeps (run_inv I P) (call f ev)"
  by (simp add: keeps_def run_inv_def calls_keep_def)

lemma keeps_run_write:
  "(\<And>d. P (managedResources (status d)) \<Longrightarrow> P (managedResources (status (f d)))) \<Longrightarrow> keeps (run_inv I P) (write_cr f)"
  by (simp add: keeps_def run_inv_def)

lemma keeps_run_read [keeps_intros]: "keeps (run_inv I P) read_cr"
  by (simp add: keeps_def)

lemma keeps_run_client:
  assumes "client_keeps I c"
  shows "keeps (run_inv I P) (client_read c q)" "keeps (run_inv I P) (client_exec c q)" "keeps (run_inv I P) (client_close c)"
  using assms by (auto simp: client_read_def client_exec_def client_close_def client_keeps_def intro!: keeps_run_call)

lemma reads_calls:
  assumes "reads_keep K I"
  shows "keeps (run_inv I P) (do_get K g ns n)" "keeps (run_inv I P) (now K)"
    "keeps (run_inv I P) (execute_template K name t data)" "keeps (run_inv I P) (getDBConfig K d)"
  using assms
  by (auto simp: do_get_def now_def execute_template_def getDBConfig_def Let_def reads_keep_def
      intro!: keeps_run_call keeps_intros)

text \<open>The clients: those of the factory by contract, PostgreSQL's because its driver's calls do.\<close>

lemma calls_keepD: "calls_keep I f \<Longrightarrow> I w \<Longrightarrow> f w = (r, w') \<Longrightarrow> I w'"
  by (auto simp: calls_keep_def dest: spec [of _ w])

lemma executeSingleQuery_keeps:
  "drivers_keep K I \<Longrightarrow> calls_keep I (executeSingleQuery K conn sql)"
  unfolding calls_keep_def
proof (intro allI impI)
  fix w assume d: "drivers_keep K I" and w: "I w"
  then have "I (snd (pgx_query K conn sql w))" by (simp add: drivers_keep_def calls_keep_def)
  then show "I (snd (executeSingleQuery K conn sql w))"
    by (cases "pgx_query K conn sql w") (simp add: executeSingleQuery_def split: sum.split option.split)
qed

lemma run_query_keeps:
  assumes "drivers_keep K I"
  shows "calls_keep I (run_query K conn sql)"
  unfolding calls_keep_def
proof (intro allI impI)
  fix w assume w: "I w"
  have "I (snd (pgx_batch K conn qs w))" for qs
    using assms w by (simp add: drivers_keep_def calls_keep_def)
  then have "I (snd (executeSingleQuery K conn q (snd (pgx_batch K conn qs w))))" for q qs
    using executeSingleQuery_keeps [OF assms] by (simp add: calls_keep_def)
  moreover have "I (snd (executeSingleQuery K conn q w))" for q
    using executeSingleQuery_keeps [OF assms] w by (simp add: calls_keep_def)
  moreover have "I (snd (pgx_batch K conn qs w))" for qs
    using assms w by (simp add: drivers_keep_def calls_keep_def)
  ultimately show "I (snd (run_query K conn sql w))"
    using w by (auto simp: run_query_def Let_def split: prod.split option.split) (metis snd_conv)+
qed

lemma Close_keeps:
  assumes "drivers_keep K I"
  shows "calls_keep I (Close K p)"
proof -
  have c: "I (snd (pgx_close K x w))" if "I w" for x w
    using assms that by (simp add: drivers_keep_def calls_keep_def)
  then have "I (snd (pgx_close K y (snd (pgx_close K x w))))" if "I w" for x y w
    using that by simp
  with c show ?thesis
    by (simp add: calls_keep_def Close_def Let_def split_def split: option.split)
qed

lemma postgres_client_keeps:
  assumes "drivers_keep K I"
  shows "client_keeps I (postgres_client K p)"
  using run_query_keeps [OF assms] Close_keeps [OF assms] assms
  by (auto simp: client_keeps_def postgres_client_def QueryRead_def Exec_def calls_keep_def drivers_keep_def
      split: option.split)

lemma Connect_keeps:
  assumes "drivers_keep K I"
  shows "calls_keep I (Connect K config)"
proof -
  have c: "I (snd (pgx_connect K x w))" if "I w" for x w
    using assms that by (simp add: drivers_keep_def calls_keep_def)
  have "I (snd (Connect K config w))" if w: "I w" for w
  proof -
    let ?first = "pgx_connect K (conn_string config (config_get config ''host'')) w"
    have 1: "I (snd ?first)" using c [OF w] .
    have 2: "I (snd (pgx_connect K (conn_string config (config_get config ''readonly_host'')) (snd ?first)))"
      using c [OF 1] .
    show ?thesis
      using 1 2 by (simp add: Connect_def Let_def split_def split: sum.split)
  qed
  then show ?thesis by (simp add: calls_keep_def)
qed

lemma open_client_hoare:
  assumes "drivers_keep K I"
  shows "hoare (run_inv I P) (open_client K d config) (\<lambda>r s. run_inv I P s \<and> (\<forall>c. r = Inr c \<longrightarrow> client_keeps I c))"
proof (rule hoareI)
  fix s assume s: "run_inv I P s"
  let ?g = "getOrCreateDBClient K d config (world s)"
  have "I (snd ?g) \<and> (\<forall>c. fst ?g = Inr c \<longrightarrow> client_keeps I c)"
  proof (cases "client_factory K")
    case None
    have "I (snd (Connect K config (world s)))"
      using Connect_keeps [OF assms] s by (simp add: calls_keep_def run_inv_def)
    with None s show ?thesis
      by (auto simp: getOrCreateDBClient_def Let_def run_inv_def postgres_client_keeps [OF assms] split: prod.split sum.split)
  next
    case (Some f)
    from s have "I (world s)" by (simp add: run_inv_def)
    with assms Some show ?thesis by (auto simp: getOrCreateDBClient_def drivers_keep_def)
  qed
  with s show "run_inv I P (run_after (open_client K d config) s) \<and>
      (\<forall>c. run_result (open_client K d config) s = Inr c \<longrightarrow> client_keeps I c)"
    by (simp add: open_client_def run_inv_def)
qed

text \<open>Going on with a client that was opened.\<close>

lemma hoare_open_client:
  assumes "drivers_keep K I" "\<And>e. hoare (run_inv I P) (f (Inl e)) Q"
    and "\<And>c. client_keeps I c \<Longrightarrow> hoare (run_inv I P) (f (Inr c)) Q"
  shows "hoare (run_inv I P) (State_Monad.bind (open_client K d config) f) Q"
proof (rule hoareI)
  fix s assume s: "run_inv I P s"
  let ?r = "run_result (open_client K d config) s"
  have o: "run_inv I P (run_after (open_client K d config) s)" "\<forall>c. ?r = Inr c \<longrightarrow> client_keeps I c"
    using hoareD [OF open_client_hoare [OF assms(1)] s] by auto
  have "hoare (run_inv I P) (f ?r) Q" using o(2) assms(2,3) by (cases ?r) auto
  from hoareD [OF this o(1)]
  show "Q (run_result (State_Monad.bind (open_client K d config) f) s)
      (run_after (State_Monad.bind (open_client K d config) f) s)" by simp
qed

lemma hoare_after_keeps:
  "keeps J m \<Longrightarrow> (\<And>a. hoare J (f a) Q) \<Longrightarrow> hoare J (State_Monad.bind m f) Q"
  by (auto simp: hoare_def keeps_def)

section \<open>Parts of a pass\<close>

lemma reads_open_client:
  assumes "reads_keep K I" "\<And>e. keeps (run_inv I P) (f (Inl e))"
    and "\<And>c. client_keeps I c \<Longrightarrow> keeps (run_inv I P) (f (Inr c))"
  shows "keeps (run_inv I P) (State_Monad.bind (open_client K d config) f)"
  using assms unfolding keeps_hoare reads_keep_def by (intro hoare_open_client) blast+

lemma reads_setCondition:
  assumes "reads_keep K I"
  shows "keeps (run_inv I P) (setCondition K t st r m)"
  unfolding setCondition_def by (intro keeps_intros reads_calls [OF assms] keeps_run_write) simp

lemma reads_detectChanges:
  assumes "reads_keep K I"
  shows "keeps (run_inv I P) (detectChanges K d cd)"
  unfolding detectChanges_def run_detection_def Let_def
  by (intro keeps_bind reads_calls [OF assms] keeps_sum keeps_return reads_open_client [OF assms])
    (auto intro!: keeps_intros keeps_run_client)

lemma reads_collect:
  assumes "reads_keep K I"
  shows "keeps (run_inv I P) (collect_objects K parts ids)"
    and "keeps (run_inv I P) (collectAllChildResources K)" "keeps (run_inv I P) (collect_managed_children K)"
proof -
  show "keeps (run_inv I P) (collect_objects K parts ids)" for parts ids
    by (induction ids) (auto intro!: keeps_intros reads_calls [OF assms])
  then show "keeps (run_inv I P) (collectAllChildResources K)" "keeps (run_inv I P) (collect_managed_children K)"
    unfolding collectAllChildResources_def collect_managed_children_def by (intro keeps_intros; simp)+
qed

text \<open>Every client a status update opens is one whose calls keep the invariant, closing included.\<close>

definition kept_clients ::
    "('w \<Rightarrow> bool) \<Rightarrow> (string list option \<Rightarrow> bool) \<Rightarrow> 'a \<times> ('w, 'v) db_client list \<Rightarrow> 'w rs \<Rightarrow> bool" where
  "kept_clients I P r s \<longleftrightarrow> run_inv I P s \<and> list_all (client_keeps I) (snd r)"

lemma reads_status_update_child:
  assumes "reads_keep K I"
  shows "hoare (run_inv I P) (status_update_child K config obj) (kept_clients I P)"
proof -
  have d: "drivers_keep K I" using assms by (simp add: reads_keep_def)
  have w: "keeps (run_inv I P) (write_cr (record_version key v))" for key v
    by (rule keeps_run_write) (simp add: record_version_def)
  show ?thesis
    unfolding status_update_child_def Let_def
    by (intro hoare_after_keeps [OF keeps_run_read] hoare_cases hoare_open_client [OF d] hoare_return
        hoare_after_keeps [OF reads_calls(3) [OF assms]] hoare_after_keeps [OF w]
        hoare_after_keeps [OF keeps_run_client(2)] hoare_after_keeps [OF reads_setCondition [OF assms]])
      (simp_all add: kept_clients_def)
qed

lemma reads_status_update_children:
  assumes "reads_keep K I"
  shows "hoare (run_inv I P) (status_update_children K config objs) (kept_clients I P)"
proof (induction objs)
  case Nil
  show ?case by (simp add: hoare_def kept_clients_def)
next
  case (Cons obj objs)
  show ?case
    using reads_status_update_child [OF assms, of P config obj] Cons
    by (simp add: hoare_def kept_clients_def split_def)
qed

lemma keeps_close_clients: "list_all (client_keeps I) cs \<Longrightarrow> keeps (run_inv I P) (close_clients cs)"
  by (induction cs) (auto intro!: keeps_intros keeps_run_client)

lemma reads_updateStatus:
  assumes "reads_keep K I"
  shows "keeps (run_inv I P) (updateStatusForChildResources K objs config)"
proof (rule keepsI)
  fix s assume s: "run_inv I P s"
  then have "run_inv I P (run_after (write_cr init_versions) s)"
    by (simp add: run_inv_def init_versions_def)
  from hoareD [OF reads_status_update_children [OF assms] this] s
  show "run_inv I P (run_after (updateStatusForChildResources K objs config) s)"
    by (auto simp: updateStatusForChildResources_def kept_clients_def split_def
        intro!: keepsD [OF keeps_close_clients])
qed

end
