(* ===== verification/Pass_Refinement.thy ===== *)
theory Pass_Refinement
  imports Convergence Deletion Kept_Worlds
begin

text \<open>
  What a pass means for the cluster: an abstract cluster that only knows which objects exist, which
  configuration the operator last applied to them and which are terminating, the specification of a pass as
  a relation on it, and the proof that the row loop with pruning, status updates and the final status
  refines it. A deletion is that of Kubernetes: the object goes, or stays for its finalizers and its grace
  period and is terminating.
\<close>

section \<open>The abstract cluster\<close>

type_synonym object_id = "gvk \<times> string \<times> string"

text \<open>Absent, not readable, or there: with the configuration of the operator (in its canonical form) if it
  has one, and with whether its deletion was asked for.\<close>

datatype object_state = Absent | Unreadable | Present "(managed_config + gval) option" bool

definition terminating :: "unstructured \<Rightarrow> bool" where
  "terminating u \<longleftrightarrow> ''deletionTimestamp'' |\<in>| fmdom (u_meta u)"

definition applied_config :: "unstructured \<Rightarrow> (managed_config + gval) option" where
  "applied_config u = (case getLastAppliedConfig u of Inr (Some c) \<Rightarrow> Some (canonicalConfig c) | _ \<Rightarrow> None)"

definition state_of :: "api_error + unstructured \<Rightarrow> object_state" where
  "state_of r =
     (case r of
        Inl e \<Rightarrow> if is_not_found e then Absent else Unreadable
      | Inr u \<Rightarrow> Present (applied_config u) (terminating u))"

definition abs_cluster :: "('w, 'v, 'c) env \<Rightarrow> 'w \<Rightarrow> object_id \<Rightarrow> object_state" where
  "abs_cluster K w i = (case i of (g, ns, n) \<Rightarrow> state_of (fst (get_object K g ns n w)))"

definition id_of :: "unstructured \<Rightarrow> object_id" where
  "id_of u = (u_gvk u, u_namespace u, u_name u)"

text \<open>What a deletion makes of an object: it is absent, or it is terminating with the same configuration.\<close>

inductive deletion :: "object_state \<Rightarrow> object_state \<Rightarrow> bool" where
  gone: "deletion x Absent"
| leaving: "deletion (Present c b) (Present c True)"

inductive_simps deletion_simps [simp]: "deletion Absent y" "deletion x Absent"

lemma deletion_trans: "deletion x y \<Longrightarrow> deletion y z \<Longrightarrow> deletion x z"
  by (auto elim!: deletion.cases intro: deletion.intros)

text \<open>The specification, a relation of the clusters before and after a pass: the objects of the rows have
  their desired configuration; of the other objects those that were managed are deleted, if pruning is
  enabled and they can be read; nothing else changes.\<close>

definition pass_spec ::
    "bool \<Rightarrow> string list \<Rightarrow> unstructured list \<Rightarrow> (object_id \<Rightarrow> object_state) \<Rightarrow> (object_id \<Rightarrow> object_state) \<Rightarrow> bool" where
  "pass_spec prune managed objs before after \<longleftrightarrow> (\<forall>i.
     case map_of (map (\<lambda>u. (id_of u, u)) objs) i of
       Some u \<Rightarrow> \<exists>b. after i = Present (Some (canonicalConfig (config_of u))) b
     | None \<Rightarrow>
         if prune \<and> i \<in> set (List.map_filter key_parts managed) \<and> before i \<noteq> Unreadable
         then deletion (before i) (after i) else after i = before i)"

section \<open>Identities and keys\<close>

lemma same_object_id: "same_object u v \<longleftrightarrow> id_of u = id_of v"
  by (simp add: same_object_def id_of_def)

lemma id_of_surj: "\<exists>v. i = id_of v"
proof -
  obtain g ns n where "i = (g, ns, n)" by (rule prod_cases3)
  then have "i = id_of \<lparr>u_gvk = g, u_namespace = ns, u_name = n, u_resourceVersion = [], u_labels = None,
      u_annotations = None, u_meta = fmempty, members = fmempty\<rparr>" by (simp add: id_of_def)
  then show ?thesis ..
qed

lemma abs_cluster_live: "abs_cluster K w (id_of u) = state_of (live_object K w u)"
  by (simp add: abs_cluster_def id_of_def live_object_def)

lemma state_of_simps [simp]:
  "state_of (Inr u) = Present (applied_config u) (terminating u)" "is_not_found e \<Longrightarrow> state_of (Inl e) = Absent"
  "state_of (Inl e) = Absent \<longleftrightarrow> is_not_found e"
  "state_of r = Unreadable \<longleftrightarrow> (\<exists>e. r = Inl e \<and> \<not> is_not_found e)"
  by (auto simp: state_of_def split: sum.split)

text \<open>A key that reads as an object is the key of no other.\<close>

definition slashes :: "string \<Rightarrow> nat" where
  "slashes s = length (filter ((=) (CHR ''/'')) s)"

lemma slashes_object_key:
  "slashes (object_key g ns n) =
     4 + slashes (gvk_group g) + slashes (gvk_version g) + slashes (gvk_kind g) + slashes ns + slashes n"
  by (simp add: slashes_def object_key_def)

lemma slashes_key_part: "slashes p = 0 \<longleftrightarrow> key_part p"
  by (auto simp: slashes_def key_part_def filter_empty_conv)

lemma key_parts_unique:
  assumes "key_parts (object_key g ns n) = Some i"
  shows "i = (g, ns, n)"
proof -
  obtain g' ns' n' where i: "i = (g', ns', n')" by (rule prod_cases3)
  note k = key_parts_Some [OF assms [unfolded i]]
  have "slashes (object_key g ns n) = 4"
    unfolding k(1) slashes_object_key using k(2) by (simp add: wf_object_def flip: slashes_key_part)
  then have "slashes (gvk_group g) = 0" "slashes (gvk_version g) = 0" "slashes (gvk_kind g) = 0"
    "slashes ns = 0" "slashes n = 0"
    by (simp_all add: slashes_object_key)
  then have p: "key_part (gvk_group g)" "key_part (gvk_version g)" "key_part (gvk_kind g)" "key_part ns" "key_part n"
    by (simp_all add: slashes_key_part)
  have "split_on (CHR ''/'') (object_key g ns n) = [gvk_group g, gvk_version g, gvk_kind g, ns, n]"
    using p by (simp add: object_key_def key_part_def)
  then show ?thesis
    using assms by (cases g) (simp add: key_parts_def split: if_splits)
qed

lemma getObjectKey_id: "getObjectKey u = (case id_of u of (g, ns, n) \<Rightarrow> object_key g ns n)"
  by (simp add: getObjectKey_def id_of_def)

section \<open>Deletion takes effect\<close>

text \<open>A deletion that succeeds is one of the object and of no other; one that does not find the object
  changes nothing, and the object is not there. Of other failures nothing is assumed.\<close>

definition deletes_one :: "('w, 'v, 'c) env \<Rightarrow> bool" where
  "deletes_one K \<longleftrightarrow>
     (\<forall>u w w'. delete_object K u w = (None, w') \<longrightarrow>
        deletion (state_of (live_object K w u)) (state_of (live_object K w' u)) \<and>
        (\<forall>v. \<not> same_object u v \<longrightarrow> live_object K w' v = live_object K w v)) \<and>
     (\<forall>u w e w'. delete_object K u w = (Some e, w') \<longrightarrow> is_not_found e \<longrightarrow>
        w' = w \<and> state_of (live_object K w u) = Absent)"

text \<open>Reading, rendering and the calls of the database leave the objects alone.\<close>

definition isolated_reads :: "('w, 'v, 'c) env \<Rightarrow> bool" where
  "isolated_reads K \<longleftrightarrow> (\<forall>L. reads_keep K (\<lambda>w. live_object K w = L))"

lemma deletion_effect:
  assumes "deletes_one K" "run_result (do_delete K u) s = None \<or> (\<exists>e. run_result (do_delete K u) s = Some e \<and> is_not_found e)"
  shows "deletion (state_of (live_object K (world s) u)) (state_of (live_object K (world (run_after (do_delete K u) s)) u))"
    and "\<not> same_object u v \<Longrightarrow> live_object K (world (run_after (do_delete K u) s)) v = live_object K (world s) v"
proof -
  let ?w = "world (run_after (do_delete K u) s)"
  have d: "delete_object K u (world s) = (run_result (do_delete K u) s, ?w)" by (simp add: do_delete_def prod_eq_iff)
  have "deletion (state_of (live_object K (world s) u)) (state_of (live_object K ?w u)) \<and>
      (\<not> same_object u v \<longrightarrow> live_object K ?w v = live_object K (world s) v)"
    using assms(2)
  proof
    assume "run_result (do_delete K u) s = None"
    with d assms(1) show ?thesis by (simp add: deletes_one_def)
  next
    assume "\<exists>e. run_result (do_delete K u) s = Some e \<and> is_not_found e"
    then obtain e where e: "run_result (do_delete K u) s = Some e" "is_not_found e" by blast
    with d assms(1) have "?w = world s" "state_of (live_object K (world s) u) = Absent"
      unfolding deletes_one_def by metis+
    then show ?thesis by simp
  qed
  then show "deletion (state_of (live_object K (world s) u)) (state_of (live_object K ?w u))"
    "\<not> same_object u v \<Longrightarrow> live_object K ?w v = live_object K (world s) v" by blast+
qed

definition stale :: "string fset \<Rightarrow> unstructured list \<Rightarrow> unstructured \<Rightarrow> bool" where
  "stale keys objs v \<longleftrightarrow> (\<exists>u \<in> set objs. getObjectKey u |\<notin>| keys \<and> same_object u v)"

lemma prune_effect:
  assumes "deletes_one K"
  shows "run_result (pruneStaleResources K keys objs) s = [] \<Longrightarrow>
    (stale keys objs v \<longrightarrow> deletion (state_of (live_object K (world s) v))
       (state_of (live_object K (world (run_after (pruneStaleResources K keys objs) s)) v))) \<and>
    (\<not> stale keys objs v \<longrightarrow> live_object K (world (run_after (pruneStaleResources K keys objs) s)) v = live_object K (world s) v)"
proof (induction objs arbitrary: s)
  case Nil
  show ?case by (simp add: stale_def)
next
  case (Cons u objs)
  show ?case
  proof (cases "getObjectKey u |\<in>| keys")
    case True
    with Cons show ?thesis by (simp add: stale_def)
  next
    case False
    let ?r = "run_result (do_delete K u) s"
    let ?s1 = "run_after (write_cr (forget_version (getObjectKey u))) (run_after (do_delete K u) s)"
    have ok: "?r = None \<or> (\<exists>e. ?r = Some e \<and> is_not_found e)"
      using Cons.prems False by (auto simp: Let_def split: option.splits if_splits)
    then have after: "run_after (pruneStaleResources K keys (u # objs)) s = run_after (pruneStaleResources K keys objs) ?s1"
      and none: "run_result (pruneStaleResources K keys objs) ?s1 = []"
      using Cons.prems False by (auto simp: Let_def)
    have d: "deletion (state_of (live_object K (world s) u)) (state_of (live_object K (world ?s1) u))"
      "\<not> same_object u v \<Longrightarrow> live_object K (world ?s1) v = live_object K (world s) v"
      using deletion_effect [OF assms ok] by simp_all
    have st: "stale keys (u # objs) v \<longleftrightarrow> same_object u v \<or> stale keys objs v"
      using False by (auto simp: stale_def)
    show ?thesis
    proof (cases "same_object u v")
      case True
      have d1: "deletion (state_of (live_object K (world s) v)) (state_of (live_object K (world ?s1) v))"
        using d(1) same_object_live [OF True, of K] by simp
      let ?s2 = "run_after (pruneStaleResources K keys objs) ?s1"
      have "deletion (state_of (live_object K (world s) v)) (state_of (live_object K (world ?s2) v))"
        using Cons.IH [OF none] d1 deletion_trans [OF d1] by (cases "stale keys objs v") simp_all
      with True show ?thesis unfolding after st by blast
    next
      case False
      with Cons.IH [OF none] d(2) show ?thesis unfolding after st by simp
    qed
  qed
qed

text \<open>The children that are collected are the managed ones that can be read.\<close>

lemma collected_quiet:
  assumes "quiet_server K" "get_faithful K"
  shows "u \<in> set (run_result (collect_objects K key_parts ids) s) \<longleftrightarrow>
      id_of u \<in> set (List.map_filter key_parts ids) \<and> live_object K (world s) u = Inr u"
    and "world (run_after (collect_objects K key_parts ids) s) = world s"
proof -
  have "(u \<in> set (run_result (collect_objects K key_parts ids) s) \<longleftrightarrow>
      id_of u \<in> set (List.map_filter key_parts ids) \<and> live_object K (world s) u = Inr u) \<and>
    world (run_after (collect_objects K key_parts ids) s) = world s"
  proof (induction ids arbitrary: s)
    case Nil
    show ?case by (simp add: map_filter_simps)
  next
    case (Cons k ids)
    show ?case
    proof (cases "key_parts k")
      case None
      with Cons show ?thesis by (simp add: map_filter_simps)
    next
      case (Some p)
      obtain g ns n where p: "p = (g, ns, n)" by (rule prod_cases3)
      let ?get = "do_get K g ns n"
      have w: "world (run_after ?get s) = world s" by (rule get_world [OF assms(1)])
      have hit: "run_result ?get s = Inr u \<longleftrightarrow> id_of u = p \<and> live_object K (world s) u = Inr u"
        using do_get_faithful [OF assms(2), of g ns n s u]
        by (auto simp: p id_of_def live_object_def do_get_def)
      show ?thesis
        using Cons [of "run_after ?get s"] hit w Some p
        by (cases "run_result ?get s") (auto simp: map_filter_simps)
    qed
  qed
  then show "u \<in> set (run_result (collect_objects K key_parts ids) s) \<longleftrightarrow>
      id_of u \<in> set (List.map_filter key_parts ids) \<and> live_object K (world s) u = Inr u"
    "world (run_after (collect_objects K key_parts ids) s) = world s" by simp_all
qed

section \<open>The phases\<close>

text \<open>Pruning after a row loop: the stale children are deleted, the other objects as they were.\<close>

lemma prune_phase_effect:
  assumes q: "quiet_server K" "get_faithful K" "deletes_one K"
    and r: "run_result (prune_phase K keys) s = []"
  defines "stale_here \<equiv> \<lambda>v. GetPrune (spec (cr s)) \<and>
    id_of v \<in> set (List.map_filter key_parts (managed_list (status (cr s)))) \<and>
    (\<exists>x. live_object K (world s) v = Inr x) \<and> getObjectKey v |\<notin>| keys"
  shows "stale_here v \<Longrightarrow> deletion (state_of (live_object K (world s) v)) (state_of (live_object K (world (run_after (prune_phase K keys) s)) v))"
    and "\<not> stale_here v \<Longrightarrow> live_object K (world (run_after (prune_phase K keys) s)) v = live_object K (world s) v"
proof -
  let ?ids = "managed_list (status (cr s))"
  let ?objs = "run_result (collect_objects K key_parts ?ids) s"
  let ?s1 = "run_after (collect_objects K key_parts ?ids) s"
  note c = collected_quiet [OF q(1,2), where ids = ?ids and s = s]
  have st: "stale keys ?objs v \<longleftrightarrow> id_of v \<in> set (List.map_filter key_parts ?ids) \<and>
      (\<exists>x. live_object K (world s) v = Inr x) \<and> getObjectKey v |\<notin>| keys"
  proof
    assume "stale keys ?objs v"
    then obtain u where u: "u \<in> set ?objs" "getObjectKey u |\<notin>| keys" "same_object u v" by (auto simp: stale_def)
    then show "id_of v \<in> set (List.map_filter key_parts ?ids) \<and>
      (\<exists>x. live_object K (world s) v = Inr x) \<and> getObjectKey v |\<notin>| keys"
      using c(1) [of u] same_object_key [OF u(3)] same_object_live [OF u(3), of K "world s"] same_object_id by auto
  next
    assume v: "id_of v \<in> set (List.map_filter key_parts ?ids) \<and>
      (\<exists>x. live_object K (world s) v = Inr x) \<and> getObjectKey v |\<notin>| keys"
    then obtain x where x: "live_object K (world s) v = Inr x" by blast
    then have "run_result (do_get K (u_gvk v) (u_namespace v) (u_name v)) s = Inr x" by (simp add: get_live)
    then have same: "same_object x v" using do_get_faithful [OF q(2)] by (simp add: same_object_def)
    then have "x \<in> set ?objs"
      using c(1) [of x] v x same_object_live [OF same, of K "world s"] same_object_id by simp
    with same v show "stale keys ?objs v" using same_object_key [OF same] unfolding stale_def by metis
  qed
  have "(stale_here v \<longrightarrow> deletion (state_of (live_object K (world s) v)) (state_of (live_object K (world (run_after (prune_phase K keys) s)) v))) \<and>
    (\<not> stale_here v \<longrightarrow> live_object K (world (run_after (prune_phase K keys) s)) v = live_object K (world s) v)"
  proof (cases "GetPrune (spec (cr s))")
    case True
    then have none: "run_result (pruneStaleResources K keys ?objs) ?s1 = []"
      and after: "run_after (prune_phase K keys) s = run_after (pruneStaleResources K keys ?objs) ?s1"
      using r by (simp_all add: prune_phase_def collectAllChildResources_def)
    show ?thesis
      using prune_effect [OF q(3) none, of v] True c(2) unfolding after st stale_here_def by simp
  next
    case False
    then show ?thesis by (simp add: prune_phase_def stale_here_def)
  qed
  then show "stale_here v \<Longrightarrow> deletion (state_of (live_object K (world s) v)) (state_of (live_object K (world (run_after (prune_phase K keys) s)) v))"
    "\<not> stale_here v \<Longrightarrow> live_object K (world (run_after (prune_phase K keys) s)) v = live_object K (world s) v"
    by blast+
qed

text \<open>What follows pruning leaves the objects alone.\<close>

lemma live_after_pruning:
  assumes "isolated_reads K" "run_result (process_rows K rows) s = (keys, errors)"
  shows "live_object K (world (run_after (manage_rows K poll config rows) s)) =
    live_object K (world (run_after (prune_phase K keys) (run_after (process_rows K rows) s)))"
proof -
  let ?s2 = "run_after (prune_phase K keys) (run_after (process_rows K rows) s)"
  let ?errs = "errors @ run_result (prune_phase K keys) (run_after (process_rows K rows) s)"
  let ?I = "run_inv (\<lambda>w. live_object K w = live_object K (world ?s2)) (\<lambda>_. True)"
  have k: "reads_keep K (\<lambda>w. live_object K w = live_object K (world ?s2))"
    using assms(1) by (simp add: isolated_reads_def)
  have "keeps ?I (finish_pass K poll keys ?errs)"
    unfolding finish_pass_def
    by (intro keeps_intros reads_calls [OF k] reads_setCondition [OF k] keeps_run_write) simp_all
  then have "keeps ?I (do { kids \<leftarrow> collect_managed_children K;
      _ \<leftarrow> updateStatusForChildResources K kids config; finish_pass K poll keys ?errs })"
    by (intro keeps_bind reads_collect [OF k] reads_updateStatus [OF k])
  from keepsD [OF this, of ?s2] show ?thesis
    by (simp add: manage_rows_def assms(2) run_inv_def)
qed

lemma needs_update_False:
  "needs_update K x u = Inr False \<Longrightarrow>
   \<exists>c. getLastAppliedConfig x = Inr (Some c) \<and> canonicalConfig c = canonicalConfig (config_of u)"
  by (auto simp: needs_update_def configsEqual_def split: sum.splits option.splits)

lemma up_to_date_present:
  "up_to_date K w u \<Longrightarrow> \<exists>b. state_of (live_object K w u) = Present (Some (canonicalConfig (config_of u))) b"
  by (auto simp: up_to_date_def applied_config_def dest!: needs_update_False)

lemma map_of_ids:
  "map_of (map (\<lambda>u. (id_of u, u)) objs) i = Some u \<Longrightarrow> u \<in> set objs \<and> id_of u = i"
  "map_of (map (\<lambda>u. (id_of u, u)) objs) i = None \<longleftrightarrow> i \<notin> id_of ` set objs"
  by (auto dest: map_of_SomeD simp: map_of_eq_None_iff image_image)

text \<open>An object that is not one of the rows has none of their keys, if a key reads as it.\<close>

lemma foreign_key:
  assumes "id_of v \<in> set (List.map_filter key_parts ids)" "id_of v \<notin> id_of ` set objs"
  shows "getObjectKey v \<notin> getObjectKey ` set objs"
proof
  assume "getObjectKey v \<in> getObjectKey ` set objs"
  then obtain u where u: "u \<in> set objs" "getObjectKey v = getObjectKey u" by blast
  obtain k where "key_parts k = Some (id_of v)"
    using assms(1) by (auto simp: List.map_filter_def)
  then have "key_parts (getObjectKey v) = Some (id_of v)"
    using key_parts_Some(1) by (fastforce simp: getObjectKey_id split: prod.splits)
  then have "id_of v = id_of u"
    using key_parts_unique [of "u_gvk u" "u_namespace u" "u_name u"] u(2)
    by (simp add: getObjectKey_def id_of_def)
  with u(1) assms(2) show False by (metis imageI)
qed

section \<open>Properties\<close>

text \<open>C2: A pass without row or pruning errors refines its specification: each row's object has its desired
  configuration, the readable managed objects without a row are absent or terminating if pruning is on and
  untouched otherwise, every other object is unchanged, and the status lists the keys of the rows. Assumed:
  a quiet server (reads change nothing; a successful write keeps the tracking annotation and touches no
  other object; a conflicting update changes nothing); get returns the object asked for; a successful
  delete removes the object or marks it terminating and touches no other, one answered by not found changes
  nothing; reading, rendering and database calls change no object; fixed scopes; the resource's template
  renders from the row alone (no \<open>now\<close>, \<open>uuidv4\<close>); rows render to different keys; each object is tame
  (its configuration and the one written have whole numbers below 2^53 and valid UTF-8; no annotation is
  only on the live object, no desired one is empty).\<close>

theorem pass_refines:
  fixes poll config
  assumes "quiet_server K" "get_faithful K" "deletes_one K" "isolated_reads K" "stable_scopes K"
    and "pure_template K (resource_template (spec (cr s)))"
    and "list_all2 (\<lambda>row obj. desired_object K (cr s) w0 row = Some obj) rows objs"
    and "distinct (map getObjectKey objs)" "list_all (tame K (world s)) objs"
    and "run_result (process_rows K rows) s = (keys, [])"
    and "run_result (prune_phase K keys) (run_after (process_rows K rows) s) = []"
  defines "s' \<equiv> run_after (manage_rows K poll config rows) s"
  shows "pass_spec (GetPrune (spec (cr s))) (managed_list (status (cr s))) objs
      (abs_cluster K (world s)) (abs_cluster K (world s')) \<and>
    managed_list (status (cr s')) = sorted_list_of_fset (fset_of_list (map getObjectKey objs))"
proof
  let ?s1 = "run_after (process_rows K rows) s"
  let ?s2 = "run_after (prune_phase K keys) ?s1"
  let ?ids = "managed_list (status (cr s))" and ?prune = "GetPrune (spec (cr s))"
  have keys: "keys = fset_of_list (map getObjectKey objs)" and up: "list_all (up_to_date K (world ?s1)) objs"
    and rest: "\<And>v. id_of v \<notin> id_of ` set objs \<Longrightarrow> live_object K (world ?s1) v = live_object K (world s) v"
    using process_rows_settle [OF assms(1,2,5-10)] unfolding same_object_id by (blast, blast, metis imageI)
  note prune = prune_phase_effect [OF assms(1-3,11), simplified]
  show "managed_list (status (cr s')) = sorted_list_of_fset (fset_of_list (map getObjectKey objs))"
    unfolding s'_def using managed_list_eq(1) [OF manage_rows_facts(1) [OF assms(10)]] keys by simp
  show "pass_spec ?prune ?ids objs (abs_cluster K (world s)) (abs_cluster K (world s'))"
    unfolding pass_spec_def
  proof
    fix i
    obtain v where i: "i = id_of v" using id_of_surj by blast
    have final: "abs_cluster K (world s') i = state_of (live_object K (world ?s2) v)"
      unfolding s'_def i abs_cluster_live live_after_pruning [OF assms(4,10)] ..
    show "case map_of (map (\<lambda>u. (id_of u, u)) objs) i of
        Some u \<Rightarrow> \<exists>b. abs_cluster K (world s') i = Present (Some (canonicalConfig (config_of u))) b
      | None \<Rightarrow> if ?prune \<and> i \<in> set (List.map_filter key_parts ?ids) \<and> abs_cluster K (world s) i \<noteq> Unreadable
          then deletion (abs_cluster K (world s) i) (abs_cluster K (world s') i)
          else abs_cluster K (world s') i = abs_cluster K (world s) i"
    proof (cases "i \<in> id_of ` set objs")
      case True
      then obtain u where u: "map_of (map (\<lambda>u. (id_of u, u)) objs) i = Some u"
        using map_of_ids(2) [of objs i] by blast
      note m = map_of_ids(1) [OF u]
      have same: "same_object u v" using m i by (simp add: same_object_id)
      have "getObjectKey v |\<in>| keys" using m same_object_key [OF same] keys by (auto simp: fset_of_list.rep_eq image_iff intro!: bexI [of _ u])
      then have "live_object K (world ?s2) v = live_object K (world ?s1) u"
        using prune(2) [of v] same_object_live [OF same, of K "world ?s1"] by simp
      moreover have "up_to_date K (world ?s1) u" using up m by (simp add: list_all_iff)
      ultimately show ?thesis unfolding final u using up_to_date_present by simp
    next
      case False
      then have none: "map_of (map (\<lambda>u. (id_of u, u)) objs) i = None" by (simp add: map_of_ids(2))
      have live: "live_object K (world ?s1) v = live_object K (world s) v" using rest False i by simp
      have "i \<in> set (List.map_filter key_parts ?ids) \<Longrightarrow> getObjectKey v |\<notin>| keys"
        using foreign_key [of v ?ids objs] False i keys by (simp add: fset_of_list.rep_eq)
      then show ?thesis
        using prune [of v] live unfolding final none option.case unfolding i abs_cluster_live
        by (cases "live_object K (world s) v") (auto simp: deletion.gone)
    qed
  qed
qed

lemma sim_deletes_one: "deletes_one sim_env"
proof -
  let ?del = "\<lambda>u w. w\<lparr>sim_objects := filter (\<lambda>x. \<not> same_object u x) (sim_objects w)\<rparr>"
  have "List.find P (filter (\<lambda>x. \<not> same_object u x) xs) = (if \<forall>x. P x \<longrightarrow> same_object u x then None else List.find P xs)"
    if "(\<forall>x. P x \<longrightarrow> same_object u x) \<or> (\<forall>x. P x \<longrightarrow> \<not> same_object u x)" for P u xs
    using that by (induction xs) auto
  then have "sim_lookup (?del u w) (u_gvk v) (u_namespace v) (u_name v) =
      (if same_object u v then None else sim_lookup w (u_gvk v) (u_namespace v) (u_name v))" for u v w
    by (force simp: sim_lookup_def same_object_def)
  then show ?thesis
    by (simp add: deletes_one_def live_object_def sim_env_def state_of_def same_object_def)
qed

lemma sim_isolated_reads: "isolated_reads sim_env"
proof -
  have "live_object sim_env w = live_object sim_env w'" if "sim_objects w = sim_objects w'" for w w'
    using that by (simp add: live_object_def sim_env_def sim_lookup_def fun_eq_iff)
  then have k: "calls_keep (\<lambda>w. live_object sim_env w = L) f" if "\<And>w. sim_objects (snd (f w)) = sim_objects w"
    for L and f :: "sim \<Rightarrow> 'b \<times> sim"
    using that unfolding calls_keep_def by metis
  have "client_keeps (\<lambda>w. live_object sim_env w = L) sim_client" for L
    unfolding client_keeps_def by (intro conjI allI k) (simp_all add: sim_client_def)
  moreover have "client_factory sim_env = Some (\<lambda>ty config w. (Inr sim_client, w))" by (simp add: sim_env_def)
  ultimately have f: "\<forall>f ty config w. client_factory sim_env = Some f \<longrightarrow> live_object sim_env w = L \<longrightarrow>
      live_object sim_env (snd (f ty config w)) = L \<and>
      (\<forall>c. fst (f ty config w) = Inr c \<longrightarrow> client_keeps (\<lambda>w. live_object sim_env w = L) c)" for L
    by auto
  have "drivers_keep sim_env (\<lambda>w. live_object sim_env w = L)" for L
    unfolding drivers_keep_def by (rule conjI [OF f], intro conjI allI k) (simp_all add: sim_env_def)
  then show ?thesis
    unfolding isolated_reads_def reads_keep_def by (intro conjI allI k) (simp_all add: sim_env_def)
qed

lemma sim_prune_quiet: "run_result (prune_phase sim_env keys) s = []"
proof -
  have "run_result (do_delete sim_env u) s = None" for u s by (simp add: do_delete_def sim_env_def)
  then have "run_result (pruneStaleResources sim_env keys objs) s = []" for objs s
    by (induction objs arbitrary: s) (simp_all add: Let_def)
  then show ?thesis by (simp add: prune_phase_def)
qed

text \<open>In the simulated cluster the object of the row is created and the old one is deleted.\<close>

theorem pass_refines_witness:
  "pass_spec True [''/v1/ConfigMap/default/old''] [sim_desired] (abs_cluster sim_env sim_world)
     (abs_cluster sim_env (world (run_after (manage_rows sim_env 60 fmempty [sim_row]) sim_state))) \<and>
   deletion (abs_cluster sim_env sim_world (id_of sim_child))
     (abs_cluster sim_env (world (run_after (manage_rows sim_env 60 fmempty [sim_row]) sim_state)) (id_of sim_child))"
proof -
  have cr: "cr sim_state = sim_resource" "world sim_state = sim_world" by (simp_all add: sim_state_def)
  have d: "list_all2 (\<lambda>row obj. desired_object sim_env (cr sim_state) sim_world row = Some obj) [sim_row] [sim_desired]"
    by (simp add: cr sim_row_def sim_desired_object)
  obtain key where r: "run_result (process_rows sim_env [sim_row]) sim_state = ({|key|}, [])"
    using sim_first_loop unfolding sim_row_def by blast
  have "distinct (map getObjectKey [sim_desired])" "list_all (tame sim_env (world sim_state)) [sim_desired]"
    using sim_desired_tame cr by simp_all
  note p = pass_refines [OF sim_quiet(1,3) sim_deletes_one sim_isolated_reads sim_quiet(2,4) d this r sim_prune_quiet,
      THEN conjunct1]
  have m: "managed_list (status sim_resource) = [''/v1/ConfigMap/default/old'']" "GetPrune (spec sim_resource) = True"
    by code_simp+
  have ids: "id_of sim_child \<noteq> id_of sim_desired"
    by (simp add: id_of_def sim_child_def sim_desired_def sim_manifest_def)
  have "id_of sim_child \<in> set (List.map_filter key_parts [''/v1/ConfigMap/default/old''])" by code_simp
  moreover have "abs_cluster sim_env sim_world (id_of sim_child) \<noteq> Unreadable"
    by (simp add: abs_cluster_live live_object_def sim_env_def split: option.split)
  ultimately have stale: "deletion (abs_cluster sim_env sim_world (id_of sim_child))
     (abs_cluster sim_env (world (run_after (manage_rows sim_env 60 fmempty [sim_row]) sim_state)) (id_of sim_child))"
    if "pass_spec True [''/v1/ConfigMap/default/old''] [sim_desired] (abs_cluster sim_env sim_world)
     (abs_cluster sim_env (world (run_after (manage_rows sim_env 60 fmempty [sim_row]) sim_state)))"
    using spec [OF that [unfolded pass_spec_def], of "id_of sim_child"] ids by simp
  have "pass_spec True [''/v1/ConfigMap/default/old''] [sim_desired] (abs_cluster sim_env sim_world)
     (abs_cluster sim_env (world (run_after (manage_rows sim_env 60 fmempty [sim_row]) sim_state)))"
    using p [of 60 fmempty] by (simp only: m cr)
  then show ?thesis using stale by blast
qed

end
