(* ===== verification/Operator_Runs.thy ===== *)
theory Operator_Runs
  imports Kept_Worlds
begin

text \<open>
  The operator over time: passes of \<open>Reconcile\<close> interleaved with steps of its surroundings (users,
  other controllers), as an inductive relation on worlds, its reachable states, and the invariant of the
  stored status. The contract of the API server and the drivers is that no call but a status update of the
  operator changes the stored list of managed resources, and that the server stores the status it is sent.
\<close>

section \<open>The invariant\<close>

definition managed_ok :: "string list option \<Rightarrow> bool" where
  "managed_ok ks \<longleftrightarrow> (case ks of None \<Rightarrow> True | Some xs \<Rightarrow> sorted xs \<and> distinct xs)"

abbreviation listed :: "dbqr_status \<Rightarrow> bool" where
  "listed st \<equiv> managed_ok (managedResources st)"

lemma listed_managed_list: "listed st \<longleftrightarrow> sorted (managed_list st) \<and> distinct (managed_list st)"
  by (simp add: managed_ok_def managed_list_def split: option.split)

definition stored_listed :: "('w, 'v, 'c) env \<Rightarrow> string \<Rightarrow> string \<Rightarrow> 'w \<Rightarrow> bool" where
  "stored_listed K ns n w \<longleftrightarrow> (\<forall>d. fst (get_cr K ns n w) = Inr d \<longrightarrow> listed (status d))"

text \<open>The writes to the cluster that leave the stored status alone.\<close>

definition writes_keep :: "('w, 'v, 'c) env \<Rightarrow> ('w \<Rightarrow> bool) \<Rightarrow> bool" where
  "writes_keep K I \<longleftrightarrow>
     (\<forall>ns n. calls_keep I (get_cr K ns n)) \<and> (\<forall>d. listed (status d) \<longrightarrow> calls_keep I (update_cr K d)) \<and>
     (\<forall>d f. status (remove_finalizer K d f) = status d) \<and>
     (\<forall>u. calls_keep I (update_object K u)) \<and> (\<forall>u. calls_keep I (apply_object K u)) \<and>
     (\<forall>u. calls_keep I (delete_object K u)) \<and> (\<forall>g. calls_keep I (scope_name K g))"

definition status_stored :: "('w, 'v, 'c) env \<Rightarrow> ('w \<Rightarrow> bool) \<Rightarrow> bool" where
  "status_stored K I \<longleftrightarrow>
     (\<forall>d w. listed (status d) \<longrightarrow> I w \<longrightarrow> I (snd (update_status K d w)) \<and>
        (\<forall>d'. fst (update_status K d w) = Inr d' \<longrightarrow> listed (status d')))"

definition api_contract :: "('w, 'v, 'c) env \<Rightarrow> string \<Rightarrow> string \<Rightarrow> bool" where
  "api_contract K ns n \<longleftrightarrow>
     reads_keep K (stored_listed K ns n) \<and> writes_keep K (stored_listed K ns n) \<and>
     status_stored K (stored_listed K ns n)"

section \<open>Runs\<close>

inductive operator_step ::
    "('w, 'v, 'c) env \<Rightarrow> string \<Rightarrow> string \<Rightarrow> ('w \<Rightarrow> 'w \<Rightarrow> bool) \<Rightarrow> 'w \<Rightarrow> 'w \<Rightarrow> bool"
  for K ns n surroundings where
  pass: "operator_step K ns n surroundings w (world (run_after (Reconcile K ns n) \<lparr>world = w, cr = d, history = []\<rparr>))"
| other: "surroundings w w' \<Longrightarrow> operator_step K ns n surroundings w w'"

inductive reachable ::
    "('w, 'v, 'c) env \<Rightarrow> string \<Rightarrow> string \<Rightarrow> ('w \<Rightarrow> 'w \<Rightarrow> bool) \<Rightarrow> 'w \<Rightarrow> 'w \<Rightarrow> bool"
  for K ns n surroundings start where
  start: "reachable K ns n surroundings start start"
| step: "reachable K ns n surroundings start w \<Longrightarrow> operator_step K ns n surroundings w w' \<Longrightarrow>
    reachable K ns n surroundings start w'"

inductive_simps operator_step_iff: "operator_step K ns n surroundings w w'"

section \<open>A pass keeps the invariant\<close>

text \<open>\<open>calm\<close> is the contract for one invariant, \<open>kept\<close> what a pass keeps: the world, and the local copy
  of the resource.\<close>

definition calm :: "('w, 'v, 'c) env \<Rightarrow> ('w \<Rightarrow> bool) \<Rightarrow> bool" where
  "calm K I \<longleftrightarrow> reads_keep K I \<and> writes_keep K I \<and> status_stored K I"

abbreviation kept :: "('w \<Rightarrow> bool) \<Rightarrow> 'w rs \<Rightarrow> bool" where
  "kept I \<equiv> run_inv I managed_ok"

lemma calm_reads: "calm K I \<Longrightarrow> reads_keep K I"
  by (simp add: calm_def)

lemmas calm_parts = calm_reads [THEN reads_setCondition] calm_reads [THEN reads_collect(1)]
  calm_reads [THEN reads_collect(2)] calm_reads [THEN reads_collect(3)] calm_reads [THEN reads_updateStatus]
  calm_reads [THEN reads_detectChanges]

lemma calm_calls:
  assumes "calm K I"
  shows "keeps (kept I) (do_get K g ns n)" "keeps (kept I) (do_update K u)" "keeps (kept I) (do_apply K u)"
    "keeps (kept I) (do_delete K u)" "keeps (kept I) (now K)" "keeps (kept I) (do_update_cr K)"
    "keeps (kept I) (do_get_cr K ns n)" "keeps (kept I) (call (scope_name K gk) ev)"
    "keeps (kept I) (execute_template K name t data)" "keeps (kept I) (getDBConfig K d)"
proof -
  have w: "writes_keep K I" using assms by (simp add: calm_def)
  then show "keeps (kept I) (do_update K u)" "keeps (kept I) (do_apply K u)" "keeps (kept I) (do_delete K u)"
    "keeps (kept I) (do_get_cr K ns n)" "keeps (kept I) (call (scope_name K gk) ev)"
    by (simp_all add: do_update_def do_apply_def do_delete_def do_get_cr_def writes_keep_def keeps_run_call)
  show "keeps (kept I) (do_update_cr K)"
    using w by (simp add: do_update_cr_def keeps_def run_inv_def writes_keep_def calls_keep_def)
qed (rule reads_calls [OF calm_reads [OF assms]])+

lemma calm_do_update_status:
  assumes "calm K I"
  shows "keeps (kept I) (do_update_status K)"
proof (rule keepsI)
  fix s assume s: "kept I s"
  with assms have w: "I (snd (update_status K (cr s) (world s)))"
    and l: "\<And>d. fst (update_status K (cr s) (world s)) = Inr d \<Longrightarrow> listed (status d)"
    by (auto simp: calm_def status_stored_def run_inv_def)
  from s w l show "kept I (run_after (do_update_status K) s)"
    by (cases "fst (update_status K (cr s) (world s))") (auto simp: do_update_status_def run_inv_def)
qed

lemma calm_shouldReconcile:
  assumes "calm K I"
  shows "keeps (kept I) (shouldReconcile K poll)"
  unfolding shouldReconcile_def check_for_changes_def
  by (intro keeps_intros calm_calls [OF assms] calm_parts(6) [OF assms]
      calm_do_update_status [OF assms] keeps_run_write) simp_all

lemma calm_prune:
  assumes "calm K I"
  shows "keeps (kept I) (pruneStaleResources K keys objs)" "keeps (kept I) (prune_phase K keys)"
proof -
  show "keeps (kept I) (pruneStaleResources K keys objs)" for objs
    by (induction objs)
      (auto intro!: keeps_intros calm_calls [OF assms] keeps_run_write simp: Let_def forget_version_def)
  then show "keeps (kept I) (prune_phase K keys)"
    unfolding prune_phase_def by (intro keeps_intros calm_parts(2-4) [OF assms])
qed

lemma calm_rows:
  assumes "calm K I"
  shows "keeps (kept I) (process_rows K rows)"
proof -
  note calls = calm_calls [OF assms]
  have upd: "keeps (kept I) (update_attempts K k e existing desired)" for k e existing desired
    by (induction k arbitrary: e existing) (auto intro!: keeps_intros calls)
  have "keeps (kept I) (process_row K row)" for row
    unfolding process_row_def render_row_def place_object_def apply_row_object_def shouldUpdateResource_def
      create_object_def updateWithConflictRetry_def
    by (intro keeps_intros calls upd)
  then show ?thesis by (induction rows) (auto intro!: keeps_intros)
qed

text \<open>The only write of the list of managed resources is that of \<open>record_managed\<close>, a sorted list of a set.\<close>

lemma listed_record_managed: "listed (status (record_managed keys d))"
  by (simp add: managed_ok_def record_managed_def sorted_list_of_fset.rep_eq)

lemma calm_finish:
  assumes "calm K I"
  shows "keeps (kept I) (finish_pass K poll keys errors)"
  unfolding finish_pass_def
  by (intro keeps_intros calm_calls [OF assms] calm_parts(1) [OF assms] keeps_run_write listed_record_managed)
    simp

lemma calm_full_pass:
  assumes "calm K I"
  shows "keeps (kept I) (full_pass K poll)"
proof -
  note parts = calm_parts(1) [OF assms] calm_rows [OF assms] calm_prune(2) [OF assms]
    calm_parts(4) [OF assms] calm_parts(5) [OF assms] calm_finish [OF assms]
  have "keeps (kept I) (connected_pass K poll config c)" if "client_keeps I c" for config c
    unfolding connected_pass_def manage_rows_def by (intro keeps_intros parts keeps_run_client that)
  then show ?thesis
    unfolding full_pass_def
    by (intro keeps_bind [OF keeps_run_read] keeps_bind [OF calm_calls(10) [OF assms]] keeps_sum
        reads_open_client [OF calm_reads [OF assms]]) (auto intro!: keeps_intros parts keeps_run_client)
qed

lemma calm_skipped_pass:
  assumes "calm K I"
  shows "keeps (kept I) (skipped_pass K t)"
  unfolding skipped_pass_def
  by (intro keeps_intros calm_calls [OF assms] calm_parts(2-4) [OF assms] calm_parts(5) [OF assms]
      calm_do_update_status [OF assms] keeps_run_write) simp

lemma calm_live:
  assumes "calm K I"
  shows "keeps (kept I) (reconcile_live K)"
  unfolding reconcile_live_def
  by (intro keeps_intros calm_parts(1) [OF assms] calm_shouldReconcile [OF assms]
      calm_skipped_pass [OF assms] calm_full_pass [OF assms])

lemma calm_deletion:
  assumes "calm K I"
  shows "keeps (kept I) (handle_deletion K)"
proof -
  have d: "keeps (kept I) (delete_all K objs)" for objs
    by (induction objs) (auto intro!: keeps_intros calm_calls [OF assms])
  have "status (remove_finalizer K d f) = status d" for d f
    using assms by (simp add: calm_def writes_keep_def)
  then have "keeps (kept I) (write_cr (\<lambda>d. remove_finalizer K d f))" for f
    by (intro keeps_run_write) simp
  then show ?thesis
    unfolding handle_deletion_def by (intro keeps_intros calm_calls [OF assms] calm_parts(2-4) [OF assms] d)
qed

lemma calm_write_status:
  assumes "calm K I" "listed desired"
  shows "keeps (kept I) (write_status K ns n k desired latest)"
proof (induction k arbitrary: latest)
  case (Suc k)
  have "keeps (kept I) (call (update_status K (latest\<lparr>status := desired\<rparr>)) ev)" for ev
    using assms by (simp add: keeps_def run_inv_def calm_def status_stored_def)
  then show ?case
    unfolding write_status.simps by (intro keeps_intros calm_calls [OF assms(1)] Suc)
qed (simp add: keeps_return)

lemma calm_deferred:
  assumes "calm K I"
  shows "keeps (kept I) (deferred_status_update K ns n)"
proof (rule keepsI)
  fix s assume s: "kept I s"
  let ?s1 = "run_after (do_get_cr K ns n) s"
  have s1: "kept I ?s1" by (rule keepsD [OF calm_calls(7) [OF assms] s])
  moreover from s1 have "listed (desired_status (cr ?s1))"
    by (simp add: run_inv_def desired_status_def)
  ultimately show "kept I (run_after (deferred_status_update K ns n) s)"
    using calm_write_status [OF assms, of "desired_status (cr ?s1)"]
    by (simp add: deferred_status_update_def keepsD split: sum.split)
qed

text \<open>A whole pass: the resource it reads is the stored one.\<close>

lemma Reconcile_keeps_stored:
  assumes "api_contract K ns n" "stored_listed K ns n (world s)"
  shows "stored_listed K ns n (world (run_after (Reconcile K ns n) s))"
proof -
  let ?I = "stored_listed K ns n"
  have t: "calm K ?I" using assms(1) by (simp add: api_contract_def calm_def)
  let ?s1 = "run_after (do_get_cr K ns n) s"
  have w: "?I (world ?s1)"
    using t assms(2) by (simp add: do_get_cr_def calm_def writes_keep_def calls_keep_def)
  have live: "keeps (kept ?I) (if deleting d then handle_deletion K else do {
      _ \<leftarrow> write_cr init_conditions; res \<leftarrow> reconcile_live K; _ \<leftarrow> deferred_status_update K ns n;
      State_Monad.return res })" for d
    by (intro keeps_intros calm_deletion [OF t] calm_live [OF t] calm_deferred [OF t] keeps_run_write)
      (simp add: init_conditions_def split: option.split)
  show ?thesis
  proof (cases "run_result (do_get_cr K ns n) s")
    case (Inl e)
    with w show ?thesis by (simp add: Reconcile_def)
  next
    case (Inr d)
    with assms(2) have "listed (status d)" by (simp add: do_get_cr_def stored_listed_def)
    with w have "kept ?I (run_after (write_cr (\<lambda>_. d)) ?s1)" by (simp add: run_inv_def)
    from keepsD [OF live this, of d] Inr show ?thesis
      by (simp add: Reconcile_def run_inv_def split: if_splits)
  qed
qed

section \<open>The invariant of runs\<close>

lemma operator_step_keeps:
  assumes "api_contract K ns n" "\<And>v v'. surroundings v v' \<Longrightarrow> stored_listed K ns n v \<Longrightarrow> stored_listed K ns n v'"
    and "operator_step K ns n surroundings w w'" "stored_listed K ns n w"
  shows "stored_listed K ns n w'"
proof -
  consider (pass) d where "w' = world (run_after (Reconcile K ns n) \<lparr>world = w, cr = d, history = []\<rparr>)"
    | (other) "surroundings w w'"
    using assms(3) unfolding operator_step_iff by blast
  then show ?thesis
  proof cases
    case (pass d)
    show ?thesis unfolding pass by (rule Reconcile_keeps_stored) (simp_all add: assms(1,4))
  next
    case other
    then show ?thesis using assms(2,4) by blast
  qed
qed

text \<open>C9: In every world the operator and its surroundings reach, the stored \<open>status.managedResources\<close> is a
  sorted list without repetitions, whatever passes ran, failed or were cut short by errors: if the list the
  run starts with is one, nobody else writes one that is not, and the API server keeps its contract
  (\<open>api_contract\<close>: it stores the status it is sent and changes it in no other call).\<close>

theorem reachable_status_listed:
  assumes "reachable K ns n surroundings start w"
    and "stored_listed K ns n start" "api_contract K ns n"
    and "\<And>v v'. surroundings v v' \<Longrightarrow> stored_listed K ns n v \<Longrightarrow> stored_listed K ns n v'"
    and "fst (get_cr K ns n w) = Inr d"
  shows "sorted (managed_list (status d)) \<and> distinct (managed_list (status d))"
proof -
  from assms(1) have "stored_listed K ns n w"
  proof (induction rule: reachable.induct)
    case start
    show ?case by (rule assms(2))
  next
    case (step v v')
    show ?case by (rule operator_step_keeps [OF assms(3) assms(4) step(2) step(3)])
  qed
  with assms(5) show ?thesis by (simp add: stored_listed_def listed_managed_list)
qed

lemma sim_contract: "api_contract sim_env ns n"
proof -
  have "writes_keep sim_env (stored_listed sim_env ns n)"
    by (simp add: writes_keep_def calls_keep_def stored_listed_def sim_env_def sim_store_def
        split: option.splits)
  moreover have "reads_keep sim_env (stored_listed sim_env ns n)"
    by (simp add: reads_keep_def drivers_keep_def client_keeps_def calls_keep_def stored_listed_def sim_env_def sim_client_def
        split: option.splits)
  moreover have "status_stored sim_env (stored_listed sim_env ns n)"
    by (simp add: status_stored_def stored_listed_def sim_env_def split: option.splits)
  ultimately show ?thesis by (simp add: api_contract_def)
qed

text \<open>A user who edits the query between the passes of the simulated operator.\<close>

definition sim_edit :: "sim \<Rightarrow> sim \<Rightarrow> bool" where
  "sim_edit w w' \<longleftrightarrow> (\<exists>q. w' = w\<lparr>sim_cr := map_option (\<lambda>d. d\<lparr>spec := (spec d)\<lparr>query := q\<rparr>\<rparr>) (sim_cr w)\<rparr>)"

theorem reachable_status_listed_witness:
  "\<exists>w d. reachable sim_env ''default'' ''r'' sim_edit sim_world w \<and> w \<noteq> sim_world \<and>
     fst (get_cr sim_env ''default'' ''r'' w) = Inr d \<and>
     sorted (managed_list (status d)) \<and> distinct (managed_list (status d))"
proof -
  let ?d = "sim_resource\<lparr>spec := sim_spec\<lparr>query := ''SELECT 1''\<rparr>\<rparr>"
  let ?w = "sim_world\<lparr>sim_cr := Some ?d\<rparr>"
  have "sim_edit sim_world ?w" by (auto simp: sim_edit_def sim_world_def sim_resource_def)
  then have r: "reachable sim_env ''default'' ''r'' sim_edit sim_world ?w"
    by (blast intro: reachable.intros operator_step.intros)
  have s: "stored_listed sim_env ''default'' ''r'' sim_world"
    by (simp add: stored_listed_def listed_managed_list managed_list_def sim_env_def sim_world_def sim_resource_def sim_status_def)
  have e: "stored_listed sim_env ''default'' ''r'' v \<Longrightarrow> stored_listed sim_env ''default'' ''r'' v'"
    if "sim_edit v v'" for v v'
    using that by (auto simp: sim_edit_def stored_listed_def sim_env_def split: option.splits)
  have g: "fst (get_cr sim_env ''default'' ''r'' ?w) = Inr ?d" by (simp add: sim_env_def)
  have n: "?w \<noteq> sim_world"
    by (simp add: sim_world_def sim_resource_def sim_spec_def)
  have "sorted (managed_list (status ?d)) \<and> distinct (managed_list (status ?d))"
    by (rule reachable_status_listed [OF r s sim_contract _ g]) (rule e)
  with r n g show ?thesis by (intro exI [of _ ?w] exI [of _ ?d]) simp
qed

end
