(* ===== verification/Watches.thy ===== *)
theory Watches
  imports Cluster
begin

text \<open>
  Which watch events enqueue a resource: \<open>specOrLifecycleChangedPredicate\<close> on the resource itself,
  and for the owned children the list of predicates \<open>SetupWithManagerAndGVKs\<close> passes to
  \<open>builder.WithPredicates\<close>. The predicates of controller-runtime, and how the builder combines a list
  of predicates, are parameters.
\<close>

text \<open>The metadata the predicates read; a nil object is \<open>None\<close>.\<close>

record object_meta =
  m_resourceVersion :: string
  m_generation :: int
  m_finalizers :: "string list option"
  m_deletionTimestamp :: "go_time option"
  m_labels :: "string smap option"
  m_annotations :: "string smap option"

datatype watch_event =
    Create_Event "object_meta option"
  | Update_Event "object_meta option" "object_meta option"
  | Delete_Event "object_meta option"
  | Generic_Event "object_meta option"

type_synonym watch_predicate = "watch_event \<Rightarrow> bool"

text \<open>\<open>metav1.Time.Equal\<close> on pointers.\<close>

definition time_ptr_equal :: "go_time option \<Rightarrow> go_time option \<Rightarrow> bool" where
  "time_ptr_equal t u =
     (case (t, u) of (None, None) \<Rightarrow> True | (Some a, Some b) \<Rightarrow> time_equal a b | _ \<Rightarrow> False)"

definition statusChangePredicate :: watch_predicate where
  "statusChangePredicate e =
     (case e of Update_Event _ _ \<Rightarrow> True | Create_Event _ \<Rightarrow> True | Delete_Event _ \<Rightarrow> True
      | Generic_Event _ \<Rightarrow> False)"

definition specOrLifecycleChangedPredicate :: watch_predicate where
  "specOrLifecycleChangedPredicate e =
     (case e of
        Update_Event (Some objectOld) (Some objectNew) \<Rightarrow>
          if m_generation objectOld \<noteq> m_generation objectNew then True
          else if m_finalizers objectOld \<noteq> m_finalizers objectNew then True
          else \<not> time_ptr_equal (m_deletionTimestamp objectOld) (m_deletionTimestamp objectNew)
      | Update_Event _ _ \<Rightarrow> False
      | Create_Event _ \<Rightarrow> True
      | Delete_Event _ \<Rightarrow> True
      | Generic_Event _ \<Rightarrow> False)"

text \<open>The predicates of controller-runtime the setup uses.\<close>

record runtime_predicates =
  resource_version_changed :: watch_predicate
  generation_changed :: watch_predicate
  annotation_changed :: watch_predicate
  label_changed :: watch_predicate

definition owned_predicates :: "runtime_predicates \<Rightarrow> watch_predicate list" where
  "owned_predicates R =
     [statusChangePredicate, resource_version_changed R, generation_changed R, annotation_changed R,
      label_changed R]"

text \<open>What \<open>SetupWithManagerAndGVKs\<close> registers: the resource with its predicate, and every owned
  kind with the same list.\<close>

definition SetupWithManagerAndGVKs ::
    "runtime_predicates \<Rightarrow> gvk list \<Rightarrow> watch_predicate list \<times> (gvk \<times> watch_predicate list) list" where
  "SetupWithManagerAndGVKs R ownedGVKs =
     ([specOrLifecycleChangedPredicate], map (\<lambda>gvk. (gvk, owned_predicates R)) ownedGVKs)"

text \<open>The builder lets an event through when all predicates of the list do.\<close>

definition conjunctive :: "(watch_predicate list \<Rightarrow> watch_event \<Rightarrow> bool) \<Rightarrow> bool" where
  "conjunctive passes \<longleftrightarrow> (\<forall>ps e. passes ps e \<longleftrightarrow> list_all (\<lambda>p. p e) ps)"

text \<open>\<open>GenerationChangedPredicate\<close> skips updates without a change of the generation.\<close>

definition skips_same_generation :: "watch_predicate \<Rightarrow> bool" where
  "skips_same_generation p \<longleftrightarrow>
     (\<forall>old new. m_generation old = m_generation new \<longrightarrow> \<not> p (Update_Event (Some old) (Some new)))"

lemma time_ptr_equal_refl [simp]: "time_ptr_equal t t"
  by (simp add: time_ptr_equal_def time_equal_def split: option.split)

section \<open>Properties\<close>

text \<open>An update of the resource is enqueued exactly when its generation, its finalizers or its deletion
  time changed; so a write of its status, which changes none of them, cannot enqueue it again. Creation
  and deletion always do, generic events never.\<close>

theorem resource_events_exact:
  "(\<not> specOrLifecycleChangedPredicate (Update_Event (Some old) (Some new)) \<longleftrightarrow>
      m_generation old = m_generation new \<and> m_finalizers old = m_finalizers new \<and>
      time_ptr_equal (m_deletionTimestamp old) (m_deletionTimestamp new)) \<and>
   \<not> specOrLifecycleChangedPredicate (Update_Event (Some old)
       (Some (old\<lparr>m_resourceVersion := v, m_labels := l, m_annotations := a\<rparr>))) \<and>
   specOrLifecycleChangedPredicate (Create_Event x) \<and> specOrLifecycleChangedPredicate (Delete_Event x) \<and>
   \<not> specOrLifecycleChangedPredicate (Generic_Event x)"
  by (simp add: specOrLifecycleChangedPredicate_def)

text \<open>C23: The predicates of the owned kinds are all required at once, so an update of a child that keeps its
  generation, as every status change does, is never delivered, although the first predicate of the list
  lets every update through.\<close>

theorem child_status_change_dropped:
  assumes "conjunctive passes" "skips_same_generation (generation_changed R)"
    and "m_generation old = m_generation new" "(g, ps) \<in> set (snd (SetupWithManagerAndGVKs R gvks))"
  shows "\<not> passes ps (Update_Event (Some old) (Some new)) \<and> statusChangePredicate (Update_Event (Some old) (Some new))"
  using assms
  by (auto simp: conjunctive_def skips_same_generation_def SetupWithManagerAndGVKs_def owned_predicates_def
      statusChangePredicate_def)

definition example_predicates :: runtime_predicates where
  "example_predicates =
     \<lparr>resource_version_changed = (\<lambda>e. case e of Update_Event (Some a) (Some b) \<Rightarrow>
          m_resourceVersion a \<noteq> m_resourceVersion b | _ \<Rightarrow> True),
      generation_changed = (\<lambda>e. case e of Update_Event (Some a) (Some b) \<Rightarrow>
          m_generation a \<noteq> m_generation b | _ \<Rightarrow> True),
      annotation_changed = (\<lambda>e. True), label_changed = (\<lambda>e. True)\<rparr>"

definition example_meta :: "string \<Rightarrow> object_meta" where
  "example_meta v = \<lparr>m_resourceVersion = v, m_generation = 1, m_finalizers = None, m_deletionTimestamp = None,
     m_labels = None, m_annotations = None\<rparr>"

theorem child_status_change_dropped_witness:
  "\<not> list_all (\<lambda>p. p (Update_Event (Some (example_meta ''1'')) (Some (example_meta ''2''))))
     (owned_predicates example_predicates)"
proof -
  have "conjunctive (\<lambda>ps e. list_all (\<lambda>p. p e) ps)" by (simp add: conjunctive_def)
  moreover have "skips_same_generation (generation_changed example_predicates)"
    by (simp add: skips_same_generation_def example_predicates_def)
  moreover have "(GVK [] ''v1'' ''Pod'', owned_predicates example_predicates) \<in>
      set (snd (SetupWithManagerAndGVKs example_predicates [GVK [] ''v1'' ''Pod'']))"
    by (simp add: SetupWithManagerAndGVKs_def)
  ultimately show ?thesis
    using child_status_change_dropped [of "\<lambda>ps e. list_all (\<lambda>p. p e) ps" example_predicates
        "example_meta ''1''" "example_meta ''2''"]
    by (simp add: example_meta_def)
qed

end
