(* ===== verification/Template_Funcs.thy ===== *)
theory Template_Funcs
  imports Json_Roundtrip
begin

text \<open>
  \<open>internal/controller/funcs.go\<close>: the functions templates may call. The YAML and TOML libraries and
  the function map of sprig are parameters; JSON is the model of \<open>encoding/json\<close>. The arguments are
  decoded values (\<open>gval\<close>), a nil map or slice is \<open>None\<close>. A panic ends the template with an error.
\<close>

section \<open>Outcomes and libraries\<close>

datatype 'a outcome = Value 'a | Panic string

text \<open>
  The libraries. An encoder returns the text or an error; the indenting YAML encoder writes to a
  buffer, which only matters when it succeeds. A decoder gets the value that is there already (an empty
  map or slice) and leaves what it could decode, with an error when something failed. The text of an error
  of \<open>encoding/json\<close> depends on what was decoded into.
\<close>

datatype json_target = Into_Map | Into_Slice

record text_codecs =
  yaml_marshal :: "gval \<Rightarrow> string + string"
  yaml_encode_indented :: "nat \<Rightarrow> gval \<Rightarrow> string + string"
  yaml_unmarshal_map :: "string \<Rightarrow> gval smap \<Rightarrow> gval smap option \<times> string option"
  yaml_unmarshal_list :: "string \<Rightarrow> gval list \<Rightarrow> gval list option \<times> string option"
  toml_encode :: "gval \<Rightarrow> string + string"
  toml_unmarshal_map :: "string \<Rightarrow> gval smap \<Rightarrow> gval smap option \<times> string option"
  json_error_text :: "json_target \<Rightarrow> string \<Rightarrow> string"
  json_marshal_error_text :: "gval \<Rightarrow> string"

section \<open>YAML and TOML\<close>

definition newline :: string where
  "newline = [CHR 0x0A]"

definition toYAML :: "text_codecs \<Rightarrow> gval \<Rightarrow> string" where
  "toYAML T v = (case yaml_marshal T v of Inl _ \<Rightarrow> [] | Inr data \<Rightarrow> trim_suffix newline data)"

definition mustToYAML :: "text_codecs \<Rightarrow> gval \<Rightarrow> string outcome" where
  "mustToYAML T v =
     (case yaml_marshal T v of Inl err \<Rightarrow> Panic err | Inr data \<Rightarrow> Value (trim_suffix newline data))"

definition toYAMLPretty :: "text_codecs \<Rightarrow> gval \<Rightarrow> string" where
  "toYAMLPretty T v = (case yaml_encode_indented T 2 v of Inl _ \<Rightarrow> [] | Inr data \<Rightarrow> trim_suffix newline data)"

text \<open>\<open>m["Error"] = err.Error()\<close>: an assignment to a nil map panics.\<close>

definition set_error :: "gval smap option \<Rightarrow> string \<Rightarrow> gval smap option outcome" where
  "set_error m err =
     (case m of
        None \<Rightarrow> Panic ''assignment to entry in nil map''
      | Some x \<Rightarrow> Value (Some (fmupd ''Error'' (GStr err) x)))"

definition error_map :: "gval smap option \<times> string option \<Rightarrow> gval smap option outcome" where
  "error_map r = (case r of (m, None) \<Rightarrow> Value m | (m, Some err) \<Rightarrow> set_error m err)"

definition error_list :: "gval list option \<times> string option \<Rightarrow> gval list option" where
  "error_list r = (case r of (a, None) \<Rightarrow> a | (_, Some err) \<Rightarrow> Some [GStr err])"

definition fromYAML :: "text_codecs \<Rightarrow> string \<Rightarrow> gval smap option outcome" where
  "fromYAML T str = error_map (yaml_unmarshal_map T str fmempty)"

definition fromYAMLArray :: "text_codecs \<Rightarrow> string \<Rightarrow> gval list option" where
  "fromYAMLArray T str = error_list (yaml_unmarshal_list T str [])"

definition toTOML :: "text_codecs \<Rightarrow> gval \<Rightarrow> string" where
  "toTOML T v = (case toml_encode T v of Inl err \<Rightarrow> err | Inr text \<Rightarrow> text)"

definition fromTOML :: "text_codecs \<Rightarrow> string \<Rightarrow> gval smap option outcome" where
  "fromTOML T str = error_map (toml_unmarshal_map T str fmempty)"

section \<open>JSON\<close>

text \<open>
  Decoding into a map or slice goes on after a number that float64 cannot hold: the number becomes nil
  and the earliest error is reported. \<open>lenient\<close> is the value, \<open>in_range\<close> the absence of such numbers.
\<close>

fun lenient :: "jv \<Rightarrow> gval" where
  "lenient JNull = GNil"
| "lenient (JBool b) = GBool b"
| "lenient (JNum l) = (case number_value l of None \<Rightarrow> GNil | Some f \<Rightarrow> GFloat f)"
| "lenient (JStr s) = GStr s"
| "lenient (JArr vs) = GArr (map lenient vs)"
| "lenient (JObj ms) = GObj (fmap_of_list (rev (map (\<lambda>(k, v). (k, lenient v)) ms)))"

fun in_range :: "jv \<Rightarrow> bool" where
  "in_range (JNum l) = (number_value l \<noteq> None)"
| "in_range (JArr vs) = list_all in_range vs"
| "in_range (JObj ms) = list_all (\<lambda>(k, v). in_range v) ms"
| "in_range _ = True"

text \<open>\<open>json.Unmarshal\<close> into a \<open>map[string]interface{}\<close> and into a \<open>[]interface{}\<close>, from the values
  that are there.\<close>

definition json_into_map :: "text_codecs \<Rightarrow> string \<Rightarrow> gval smap \<Rightarrow> gval smap option \<times> string option" where
  "json_into_map T str m =
     (case parse_json str of
        None \<Rightarrow> (Some m, Some (json_error_text T Into_Map str))
      | Some JNull \<Rightarrow> (None, None)
      | Some (JObj ms) \<Rightarrow>
          (Some (m ++\<^sub>f fmap_of_list (rev (map (\<lambda>(k, v). (k, lenient v)) ms))),
           if in_range (JObj ms) then None else Some (json_error_text T Into_Map str))
      | Some _ \<Rightarrow> (Some m, Some (json_error_text T Into_Map str)))"

definition json_into_list :: "text_codecs \<Rightarrow> string \<Rightarrow> gval list \<Rightarrow> gval list option \<times> string option" where
  "json_into_list T str a =
     (case parse_json str of
        None \<Rightarrow> (Some a, Some (json_error_text T Into_Slice str))
      | Some JNull \<Rightarrow> (None, None)
      | Some (JArr vs) \<Rightarrow>
          (Some (map lenient vs), if in_range (JArr vs) then None else Some (json_error_text T Into_Slice str))
      | Some _ \<Rightarrow> (Some a, Some (json_error_text T Into_Slice str)))"

definition toJSON :: "gval \<Rightarrow> string" where
  "toJSON v = (case json_marshal v of None \<Rightarrow> [] | Some data \<Rightarrow> data)"

definition mustToJSON :: "text_codecs \<Rightarrow> gval \<Rightarrow> string outcome" where
  "mustToJSON T v = (case json_marshal v of None \<Rightarrow> Panic (json_marshal_error_text T v) | Some data \<Rightarrow> Value data)"

definition fromJSON :: "text_codecs \<Rightarrow> string \<Rightarrow> gval smap option outcome" where
  "fromJSON T str = error_map (json_into_map T str fmempty)"

definition fromJSONArray :: "text_codecs \<Rightarrow> string \<Rightarrow> gval list option" where
  "fromJSONArray T str = error_list (json_into_list T str [])"

section \<open>The function map\<close>

datatype template_func =
    Sprig string
  | To_Text "gval \<Rightarrow> string"
  | Must_To_Text "gval \<Rightarrow> string outcome"
  | From_Text_Map "string \<Rightarrow> gval smap option outcome"
  | From_Text_List "string \<Rightarrow> gval list option"

definition extra_funcs :: "text_codecs \<Rightarrow> (string \<times> template_func) list" where
  "extra_funcs T =
     [(''toToml'', To_Text (toTOML T)), (''fromToml'', From_Text_Map (fromTOML T)),
      (''toYaml'', To_Text (toYAML T)), (''mustToYaml'', Must_To_Text (mustToYAML T)),
      (''toYamlPretty'', To_Text (toYAMLPretty T)), (''fromYaml'', From_Text_Map (fromYAML T)),
      (''fromYamlArray'', From_Text_List (fromYAMLArray T)), (''toJson'', To_Text toJSON),
      (''mustToJson'', Must_To_Text (mustToJSON T)), (''fromJson'', From_Text_Map (fromJSON T)),
      (''fromJsonArray'', From_Text_List (fromJSONArray T))]"

text \<open>\<open>maps.Copy\<close>: the operator's functions replace sprig's of the same name.\<close>

definition FuncMap :: "text_codecs \<Rightarrow> (string, template_func) fmap \<Rightarrow> (string, template_func) fmap" where
  "FuncMap T sprig = sprig ++\<^sub>f fmap_of_list (extra_funcs T)"

section \<open>Decoding\<close>

lemma lenient_to_gval:
  "to_gval v = (if in_range v then Some (lenient v) else None)"
  "to_gvals vs = (if list_all in_range vs then Some (map lenient vs) else None)"
  "to_gmembers ms =
     (if list_all (\<lambda>(k, v). in_range v) ms then Some (map (\<lambda>(k, v). (k, lenient v)) ms) else None)"
  by (induction v and vs and ms rule: to_gval_to_gvals_to_gmembers.induct)
    (auto split: option.split)

lemma json_into_map_object:
  assumes "json_unmarshal b = Some (GObj m)"
  shows "json_into_map T b fmempty = (Some m, None)"
proof -
  obtain v where v: "parse_json b = Some v" "to_gval v = Some (GObj m)"
    using assms by (cases "parse_json b") (auto simp: json_unmarshal_def)
  then obtain ms where ms: "v = JObj ms" by (cases v) auto
  with v have "in_range (JObj ms)" "lenient (JObj ms) = GObj m"
    by (simp_all add: lenient_to_gval split: if_splits)
  with v ms show ?thesis by (simp add: json_into_map_def)
qed

lemma json_into_list_array:
  assumes "json_unmarshal b = Some (GArr vs)"
  shows "json_into_list T b [] = (Some vs, None)"
proof -
  obtain v where v: "parse_json b = Some v" "to_gval v = Some (GArr vs)"
    using assms by (cases "parse_json b") (auto simp: json_unmarshal_def)
  then obtain us where us: "v = JArr us" by (cases v) auto
  with v have "in_range (JArr us)" "lenient (JArr us) = GArr vs"
    by (simp_all add: lenient_to_gval split: if_splits)
  with v us show ?thesis by (simp add: json_into_list_def)
qed

text \<open>The decoder of the other kind.\<close>

lemma json_into_map_array:
  assumes "json_unmarshal c = Some (GArr vs)"
  shows "json_into_map T c m = (Some m, Some (json_error_text T Into_Map c))"
proof -
  obtain v where v: "parse_json c = Some v" "to_gval v = Some (GArr vs)"
    using assms by (cases "parse_json c") (auto simp: json_unmarshal_def)
  then obtain us where "v = JArr us" by (cases v) auto
  with v show ?thesis by (simp add: json_into_map_def)
qed

lemma json_into_list_object:
  assumes "json_unmarshal b = Some (GObj m)"
  shows "json_into_list T b a = (Some a, Some (json_error_text T Into_Slice b))"
proof -
  obtain v where v: "parse_json b = Some v" "to_gval v = Some (GObj m)"
    using assms by (cases "parse_json b") (auto simp: json_unmarshal_def)
  then obtain ms where "v = JObj ms" by (cases v) auto
  with v show ?thesis by (simp add: json_into_list_def)
qed

section \<open>Properties\<close>

text \<open>C33: What a template encodes with \<open>toJson\<close> the decoder of its kind reads back: objects with \<open>fromJson\<close> and
  arrays with \<open>fromJsonArray\<close>, of whole numbers below 2^53, valid UTF-8 strings, booleans and nil, the
  numbers as float64. With the decoder of the other kind nothing of the value is left: an array given to
  \<open>fromJson\<close> yields a map with the member \<open>Error\<close> alone, an object given to \<open>fromJsonArray\<close> a list of one
  error text, and the template goes on.\<close>

theorem json_functions_roundtrip:
  assumes "json_plain (GObj m)" "json_plain (GArr vs)"
  shows "fromJSON T (toJSON (GObj m)) = Value (Some (fmmap json_norm m)) \<and>
    fromJSONArray T (toJSON (GArr vs)) = Some (map json_norm vs) \<and>
    fromJSON T (toJSON (GArr vs)) = Value (Some (fmupd ''Error'' (GStr (json_error_text T Into_Map (toJSON (GArr vs)))) fmempty)) \<and>
    fromJSONArray T (toJSON (GObj m)) = Some [GStr (json_error_text T Into_Slice (toJSON (GObj m)))]"
proof -
  obtain b where b: "json_marshal (GObj m) = Some b" "json_unmarshal b = Some (GObj (fmmap json_norm m))"
    using json_unmarshal_marshal [OF assms(1)] by auto
  obtain c where c: "json_marshal (GArr vs) = Some c" "json_unmarshal c = Some (GArr (map json_norm vs))"
    using json_unmarshal_marshal [OF assms(2)] by auto
  show ?thesis
    using b c json_into_map_object [OF b(2)] json_into_list_array [OF c(2)]
      json_into_map_array [OF c(2)] json_into_list_object [OF b(2)]
    by (simp add: toJSON_def fromJSON_def fromJSONArray_def error_map_def error_list_def set_error_def)
qed

definition no_codecs :: text_codecs where
  "no_codecs =
     \<lparr>yaml_marshal = (\<lambda>v. Inl ''yaml''), yaml_encode_indented = (\<lambda>n v. Inl ''yaml''),
      yaml_unmarshal_map = (\<lambda>s m. (Some m, Some ''yaml'')), yaml_unmarshal_list = (\<lambda>s a. (Some a, Some ''yaml'')),
      toml_encode = (\<lambda>v. Inl ''toml''), toml_unmarshal_map = (\<lambda>s m. (Some m, Some ''toml'')),
      json_error_text = (\<lambda>target s. ''invalid JSON''), json_marshal_error_text = (\<lambda>v. ''unsupported value'')\<rparr>"

theorem json_functions_roundtrip_witness:
  "fromJSON no_codecs (toJSON (GObj (fmupd ''a'' (GInt 3) fmempty))) =
     Value (Some (fmupd ''a'' (GFloat (f64_of_int 3)) fmempty)) \<and>
   fromJSONArray no_codecs (toJSON (GArr [GNil, GBool True])) = Some [GNil, GBool True]"
proof -
  have "json_plain (GObj (fmupd ''a'' (GInt 3) fmempty))" "json_plain (GArr [GNil, GBool True])"
    by (auto simp: ascii_valid_utf8 ascii_def)
  from json_functions_roundtrip [OF this, of no_codecs] show ?thesis by (simp add: fmmap_fmupd)
qed

text \<open>\<open>fromJson\<close> never panics. It gives the decoded object, with the member \<open>Error\<close> added when a number
  is out of range; nil for null; and for every other text, arrays and scalars included, a map whose only
  member is \<open>Error\<close>.\<close>

theorem fromJSON_spec:
  "fromJSON T str =
     Value (case parse_json str of
       Some JNull \<Rightarrow> None
     | Some (JObj ms) \<Rightarrow>
         Some (let m = fmap_of_list (rev (map (\<lambda>(k, v). (k, lenient v)) ms))
               in if in_range (JObj ms) then m else fmupd ''Error'' (GStr (json_error_text T Into_Map str)) m)
     | _ \<Rightarrow> Some (fmupd ''Error'' (GStr (json_error_text T Into_Map str)) fmempty))"
  by (simp add: fromJSON_def json_into_map_def error_map_def set_error_def Let_def split: option.split jv.split)

text \<open>A template sees the operator's eleven functions under their names and sprig's under every other
  name; in particular sprig's \<open>env\<close> and \<open>expandenv\<close> stay available, which the function map of Helm
  leaves out, so a template can read the environment of the operator's process.\<close>

theorem FuncMap_spec:
  "fmlookup (FuncMap T sprig) n =
     (case map_of (extra_funcs T) n of Some f \<Rightarrow> Some f | None \<Rightarrow> fmlookup sprig n) \<and>
   length (extra_funcs T) = 11 \<and> distinct (map fst (extra_funcs T)) \<and>
   fmlookup (FuncMap T sprig) ''env'' = fmlookup sprig ''env'' \<and>
   fmlookup (FuncMap T sprig) ''expandenv'' = fmlookup sprig ''expandenv''"
  by (simp add: FuncMap_def fmlookup_of_list extra_funcs_def split: option.split)

end
