(* ===== verification/Startup.thy ===== *)
theory Startup
  imports Gvk Go_Time
begin

text \<open>
  \<open>src/main.go\<close>: the command line flags with their defaults, the environment variables \<open>GVK_PATTERN\<close> and
  \<open>LOG_LEVEL\<close>, and the sequence of calls that sets the manager up and starts it. The grammar of the
  command line is that of Go's package \<open>flag\<close>, whose error handling exits the process. Flags that packages
  outside the repository register (zap's, the kubeconfig of controller-runtime) and the outcomes of the
  manager's calls are parameters; log output is left out.
\<close>

section \<open>Flags\<close>

record flags =
  gvkPattern :: string
  metricsAddr :: string
  probeAddr :: string
  enableLeaderElection :: bool
  secureMetrics :: bool
  enableHTTP2 :: bool
  leaderElectionLeaseDuration :: duration
  leaderElectionRenewDeadline :: duration
  leaderElectionRetryPeriod :: duration

definition default_flags :: "string \<Rightarrow> flags" where
  "default_flags gvk_pattern_env =
     \<lparr>gvkPattern = gvk_pattern_env, metricsAddr = '':8080'', probeAddr = '':8081'',
      enableLeaderElection = False, secureMetrics = False, enableHTTP2 = False,
      leaderElectionLeaseDuration = 30 * second, leaderElectionRenewDeadline = 20 * second,
      leaderElectionRetryPeriod = 5 * second\<rparr>"

text \<open>The fields of \<open>zap.Options\<close> the code writes; every other level a flag of zap can set is a number.\<close>

datatype log_level = DebugLevel | InfoLevel | WarnLevel | ErrorLevel | Numeric_Level int

record log_options =
  development :: bool
  log_level_opt :: "log_level option"

type_synonym settings = "flags \<times> log_options"

text \<open>A registered flag: how its value is set. A flag of another package is told by whether it can stand
  without a value and what it does to zap's options.\<close>

datatype flag_value =
    Bool_Flag "bool \<Rightarrow> flags \<Rightarrow> flags"
  | String_Flag "string \<Rightarrow> flags \<Rightarrow> flags"
  | Duration_Flag "duration \<Rightarrow> flags \<Rightarrow> flags"
  | Other_Flag bool "string \<Rightarrow> log_options \<Rightarrow> log_options option"

type_synonym other_flags = "string \<Rightarrow> (bool \<times> (string \<Rightarrow> log_options \<Rightarrow> log_options option)) option"

definition own_flags :: "(string \<times> flag_value) list" where
  "own_flags =
     [(''gvk-pattern'', String_Flag (\<lambda>v f. f\<lparr>gvkPattern := v\<rparr>)),
      (''metrics-bind-address'', String_Flag (\<lambda>v f. f\<lparr>metricsAddr := v\<rparr>)),
      (''health-probe-bind-address'', String_Flag (\<lambda>v f. f\<lparr>probeAddr := v\<rparr>)),
      (''leader-elect'', Bool_Flag (\<lambda>v f. f\<lparr>enableLeaderElection := v\<rparr>)),
      (''metrics-secure'', Bool_Flag (\<lambda>v f. f\<lparr>secureMetrics := v\<rparr>)),
      (''enable-http2'', Bool_Flag (\<lambda>v f. f\<lparr>enableHTTP2 := v\<rparr>)),
      (''leader-election-lease-duration'', Duration_Flag (\<lambda>v f. f\<lparr>leaderElectionLeaseDuration := v\<rparr>)),
      (''leader-election-renew-deadline'', Duration_Flag (\<lambda>v f. f\<lparr>leaderElectionRenewDeadline := v\<rparr>)),
      (''leader-election-retry-period'', Duration_Flag (\<lambda>v f. f\<lparr>leaderElectionRetryPeriod := v\<rparr>))]"

definition find_flag :: "other_flags \<Rightarrow> string \<Rightarrow> flag_value option" where
  "find_flag others n =
     (case map_of own_flags n of
        Some fv \<Rightarrow> Some fv
      | None \<Rightarrow> map_option (\<lambda>(alone, upd). Other_Flag alone upd) (others n))"

text \<open>\<open>strconv.ParseBool\<close>.\<close>

definition parse_bool :: "string \<Rightarrow> bool option" where
  "parse_bool s =
     (if s \<in> {''1'', ''t'', ''T'', ''TRUE'', ''true'', ''True''} then Some True
      else if s \<in> {''0'', ''f'', ''F'', ''FALSE'', ''false'', ''False''} then Some False
      else None)"

definition set_flag :: "flag_value \<Rightarrow> string \<Rightarrow> settings \<Rightarrow> settings option" where
  "set_flag fv v c =
     (case fv of
        Bool_Flag upd \<Rightarrow> map_option (\<lambda>b. (upd b (fst c), snd c)) (parse_bool v)
      | String_Flag upd \<Rightarrow> Some (upd v (fst c), snd c)
      | Duration_Flag upd \<Rightarrow> (case ParseDuration v of Inl _ \<Rightarrow> None | Inr d \<Rightarrow> Some (upd d (fst c), snd c))
      | Other_Flag _ upd \<Rightarrow> map_option (Pair (fst c)) (upd v (snd c)))"

fun needs_no_value :: "flag_value \<Rightarrow> bool" where
  "needs_no_value (Bool_Flag _) = True"
| "needs_no_value (Other_Flag b _) = b"
| "needs_no_value _ = False"

section \<open>The command line\<close>

text \<open>Why parsing ends the process: a request for help, with status 0, or an error, with status 2.\<close>

datatype flag_exit = Help_Asked | Bad_Syntax string | Undefined_Flag string
  | Invalid_Value string string | Needs_Argument string

text \<open>\<open>name=value\<close> is cut at the first equals sign after the first byte.\<close>

fun cut_value :: "string \<Rightarrow> string \<times> string option" where
  "cut_value [] = ([], None)"
| "cut_value (c # cs) = (if c = CHR ''='' then ([], Some cs) else apfst (Cons c) (cut_value cs))"

text \<open>\<open>flag.Parse\<close>: flags are read up to the first argument that is none, or \<open>--\<close>.\<close>

fun parse_flags :: "other_flags \<Rightarrow> string list \<Rightarrow> settings \<Rightarrow> flag_exit + settings" where
  "parse_flags others [] c = Inr c"
| "parse_flags others (s # args) c =
     (if length s < 2 \<or> hd s \<noteq> CHR ''-'' \<or> s = ''--'' then Inr c
      else
        let name = (if s ! 1 = CHR ''-'' then drop 2 s else drop 1 s) in
        if hd name = CHR ''-'' \<or> hd name = CHR ''='' then Inl (Bad_Syntax s)
        else (case cut_value name of (n, v) \<Rightarrow>
          (case find_flag others n of
             None \<Rightarrow> Inl (if n = ''help'' \<or> n = ''h'' then Help_Asked else Undefined_Flag n)
           | Some fv \<Rightarrow>
               (case v of
                  Some x \<Rightarrow>
                    (case set_flag fv x c of None \<Rightarrow> Inl (Invalid_Value n x) | Some c' \<Rightarrow> parse_flags others args c')
                | None \<Rightarrow>
                    if needs_no_value fv then
                      (case set_flag fv ''true'' c of
                         None \<Rightarrow> Inl (Invalid_Value n ''true'') | Some c' \<Rightarrow> parse_flags others args c')
                    else (case args of
                        [] \<Rightarrow> Inl (Needs_Argument n)
                      | x # rest \<Rightarrow>
                          (case set_flag fv x c of
                             None \<Rightarrow> Inl (Invalid_Value n x) | Some c' \<Rightarrow> parse_flags others rest c'))))))"

section \<open>The log level\<close>

text \<open>\<open>strings.ToLower\<close> as far as the words of the switch can tell: the letters of ASCII, and the dotted
  capital I (two bytes in UTF-8), the only other rune whose lower case is a letter of one of them.\<close>

fun lower_word :: "string \<Rightarrow> string" where
  "lower_word [] = []"
| "lower_word [c] = [lower_char c]"
| "lower_word (c # d # cs) =
     (if (of_char c :: nat) = 196 \<and> (of_char d :: nat) = 176 then CHR ''i'' # lower_word cs
      else lower_char c # lower_word (d # cs))"

definition level_of_word :: "string \<Rightarrow> log_level" where
  "level_of_word logLevel =
     (let w = lower_word logLevel in
      if w = ''debug'' then DebugLevel
      else if w = ''info'' then InfoLevel
      else if w = ''warn'' \<or> w = ''warning'' then WarnLevel
      else if w = ''error'' then ErrorLevel
      else InfoLevel)"

definition override_log_level :: "string \<Rightarrow> log_options \<Rightarrow> log_options" where
  "override_log_level logLevel opts =
     (if logLevel = [] then opts
      else
        let level = level_of_word logLevel;
            opts1 = (if level = DebugLevel then opts\<lparr>development := True\<rparr> else opts)
        in opts1\<lparr>log_level_opt := Some level\<rparr>)"

section \<open>The manager\<close>

text \<open>The protocols a TLS server offers; \<open>None\<close> leaves the default, which has HTTP/2.\<close>

definition tls_protocols :: "flags \<Rightarrow> string list option" where
  "tls_protocols f = (if \<not> enableHTTP2 f then Some [''http/1.1''] else None)"

record manager_options =
  metrics_bind_address :: string
  metrics_secure :: bool
  metrics_protocols :: "string list option"
  webhook_protocols :: "string list option"
  health_probe_address :: string
  leader_election :: bool
  leader_election_id :: string
  lease_duration :: duration
  renew_deadline :: duration
  retry_period :: duration

definition options_of_flags :: "flags \<Rightarrow> manager_options" where
  "options_of_flags f =
     \<lparr>metrics_bind_address = metricsAddr f, metrics_secure = secureMetrics f,
      metrics_protocols = tls_protocols f, webhook_protocols = tls_protocols f,
      health_probe_address = probeAddr f, leader_election = enableLeaderElection f,
      leader_election_id = ''dbqueryoperator.konnektr.io'',
      lease_duration = leaderElectionLeaseDuration f, renew_deadline = leaderElectionRenewDeadline f,
      retry_period = leaderElectionRetryPeriod f\<rparr>"

datatype startup_call =
    Load_Config
  | New_Manager manager_options
  | Setup_Controller "gvk list"
  | Setup_Webhook
  | Add_Healthz
  | Add_Readyz
  | Start_Manager

definition startup_calls :: "flags \<Rightarrow> gvk list \<Rightarrow> startup_call list" where
  "startup_calls f gvks =
     [Load_Config, New_Manager (options_of_flags f), Setup_Controller gvks, Setup_Webhook, Add_Healthz,
      Add_Readyz, Start_Manager]"

text \<open>The calls in order, until one fails; \<open>ok\<close> tells of a call, after those before it, whether it
  succeeds. The second component is the exit status.\<close>

fun run_calls ::
    "(startup_call list \<Rightarrow> startup_call \<Rightarrow> bool) \<Rightarrow> startup_call list \<Rightarrow> startup_call list \<Rightarrow> startup_call list \<times> nat" where
  "run_calls ok made [] = (made, 0)"
| "run_calls ok made (c # cs) = (if ok made c then run_calls ok (made @ [c]) cs else (made @ [c], 1))"

record run_outcome =
  calls_made :: "startup_call list"
  exit_status :: nat
  log_settings :: "log_options option"

text \<open>\<open>main\<close>. The log settings are those the logger is built with, if it is.\<close>

definition main_program ::
    "other_flags \<Rightarrow> (startup_call list \<Rightarrow> startup_call \<Rightarrow> bool) \<Rightarrow> (string \<Rightarrow> string) \<Rightarrow> string list \<Rightarrow> run_outcome" where
  "main_program others ok getenv args =
     (case parse_flags others args
        (default_flags (getenv ''GVK_PATTERN''), \<lparr>development = True, log_level_opt = None\<rparr>) of
        Inl e \<Rightarrow> \<lparr>calls_made = [], exit_status = (if e = Help_Asked then 0 else 2), log_settings = None\<rparr>
      | Inr (f, opts) \<Rightarrow>
          let opts' = override_log_level (getenv ''LOG_LEVEL'') opts in
          (case ParseGVKs (gvkPattern f) of
             Inl _ \<Rightarrow> \<lparr>calls_made = [], exit_status = 1, log_settings = Some opts'\<rparr>
           | Inr registeredGVKs \<Rightarrow>
               (case run_calls ok [] (startup_calls f registeredGVKs) of
                  (cs, st) \<Rightarrow> \<lparr>calls_made = cs, exit_status = st, log_settings = Some opts'\<rparr>)))"

section \<open>Command lines\<close>

text \<open>The ways to write a flag of the operator: with one dash or two, the value after an equals sign, the
  value as the next argument (not for a boolean), or no value (a boolean only, for \<open>true\<close>).\<close>

datatype flag_arg = Joined bool string string | Spaced bool string string | Alone bool string

definition dashes :: "bool \<Rightarrow> string" where
  "dashes two = (if two then ''--'' else ''-'')"

fun arg_words :: "flag_arg \<Rightarrow> string list" where
  "arg_words (Joined two n v) = [dashes two @ n @ ''='' @ v]"
| "arg_words (Spaced two n v) = [dashes two @ n, v]"
| "arg_words (Alone two n) = [dashes two @ n]"

fun arg_setting :: "flag_arg \<Rightarrow> string \<times> string" where
  "arg_setting (Joined two n v) = (n, v)"
| "arg_setting (Spaced two n v) = (n, v)"
| "arg_setting (Alone two n) = (n, ''true'')"

fun own_arg :: "flag_arg \<Rightarrow> bool" where
  "own_arg (Joined two n v) \<longleftrightarrow> map_of own_flags n \<noteq> None"
| "own_arg (Spaced two n v) \<longleftrightarrow> (case map_of own_flags n of None \<Rightarrow> False | Some fv \<Rightarrow> \<not> needs_no_value fv)"
| "own_arg (Alone two n) \<longleftrightarrow> (case map_of own_flags n of None \<Rightarrow> False | Some fv \<Rightarrow> needs_no_value fv)"

text \<open>Where flags end: nothing, an argument that is no flag, or \<open>--\<close>.\<close>

definition ends_flags :: "string list \<Rightarrow> bool" where
  "ends_flags tail \<longleftrightarrow> (case tail of [] \<Rightarrow> True | s # _ \<Rightarrow> length s < 2 \<or> hd s \<noteq> CHR ''-'' \<or> s = ''--'')"

text \<open>What the settings come to: the last value given for a name, read, or the default.\<close>

definition given :: "(string \<times> string) list \<Rightarrow> string \<Rightarrow> (string \<Rightarrow> 'a) \<Rightarrow> 'a \<Rightarrow> 'a" where
  "given settings n read dflt = (case map_of (rev settings) n of None \<Rightarrow> dflt | Some v \<Rightarrow> read v)"

definition given_bool :: "string \<Rightarrow> bool" where
  "given_bool v \<longleftrightarrow> parse_bool v = Some True"

definition given_duration :: "string \<Rightarrow> duration" where
  "given_duration v = (case ParseDuration v of Inl _ \<Rightarrow> 0 | Inr d \<Rightarrow> d)"

definition given_flags :: "(string \<times> string) list \<Rightarrow> flags \<Rightarrow> flags" where
  "given_flags kvs f =
     \<lparr>gvkPattern = given kvs ''gvk-pattern'' id (gvkPattern f),
      metricsAddr = given kvs ''metrics-bind-address'' id (metricsAddr f),
      probeAddr = given kvs ''health-probe-bind-address'' id (probeAddr f),
      enableLeaderElection = given kvs ''leader-elect'' given_bool (enableLeaderElection f),
      secureMetrics = given kvs ''metrics-secure'' given_bool (secureMetrics f),
      enableHTTP2 = given kvs ''enable-http2'' given_bool (enableHTTP2 f),
      leaderElectionLeaseDuration =
        given kvs ''leader-election-lease-duration'' given_duration (leaderElectionLeaseDuration f),
      leaderElectionRenewDeadline =
        given kvs ''leader-election-renew-deadline'' given_duration (leaderElectionRenewDeadline f),
      leaderElectionRetryPeriod =
        given kvs ''leader-election-retry-period'' given_duration (leaderElectionRetryPeriod f)\<rparr>"

text \<open>A boolean must be one of \<open>strconv.ParseBool\<close>, a duration one of \<open>time.ParseDuration\<close>.\<close>

definition valid_setting :: "string \<times> string \<Rightarrow> bool" where
  "valid_setting p =
     (case map_of own_flags (fst p) of
        Some (Bool_Flag _) \<Rightarrow> parse_bool (snd p) \<noteq> None
      | Some (Duration_Flag _) \<Rightarrow> \<not> isl (ParseDuration (snd p))
      | Some (String_Flag _) \<Rightarrow> True
      | _ \<Rightarrow> False)"

lemma given_Nil [simp]: "given [] n read dflt = dflt"
  by (simp add: given_def)

lemma given_Cons: "given (p # ps) n read dflt = given ps n read (given [p] n read dflt)"
  by (auto simp: given_def map_add_def split: option.splits)

lemma given_flags_Nil [simp]: "given_flags [] f = f"
  by (simp add: given_flags_def)

lemma given_flags_Cons: "given_flags (p # ps) f = given_flags ps (given_flags [p] f)"
  by (simp add: given_flags_def given_Cons [of p ps])

lemma set_own_flag:
  assumes "map_of own_flags n = Some fv"
  shows "set_flag fv v c = (if valid_setting (n, v) then Some (given_flags [(n, v)] (fst c), snd c) else None)"
proof -
  have v: "valid_setting (n, v) =
     (case fv of Bool_Flag _ \<Rightarrow> parse_bool v \<noteq> None | Duration_Flag _ \<Rightarrow> \<not> isl (ParseDuration v)
      | String_Flag _ \<Rightarrow> True | _ \<Rightarrow> False)"
    unfolding valid_setting_def fst_conv snd_conv assms option.case ..
  have g: "given [(n, v)] m read dflt = (if n = m then read v else dflt)" for m and read :: "string \<Rightarrow> 'x" and dflt
    by (simp add: given_def)
  obtain f opts where c: "c = (f, opts)" by (rule prod.exhaust)
  obtain a1 a2 a3 a4 a5 a6 a7 a8 a9 where f: "f = \<lparr>gvkPattern = a1, metricsAddr = a2, probeAddr = a3,
      enableLeaderElection = a4, secureMetrics = a5, enableHTTP2 = a6, leaderElectionLeaseDuration = a7,
      leaderElectionRenewDeadline = a8, leaderElectionRetryPeriod = a9\<rparr>" by (rule flags.cases)
  have b: "parse_bool v = Some x \<Longrightarrow> given_bool v = x" for x by (simp add: given_bool_def)
  have "(n, fv) \<in> set own_flags" using assms by (rule map_of_SomeD)
  then show ?thesis
    unfolding own_flags_def v given_flags_def g set_flag_def c f list.set insert_iff prod.inject empty_iff
    by (elim disjE conjE FalseE; hypsubst)
      (auto simp: b given_duration_def split: option.split sum.split)
qed

lemma cut_value_append: "CHR ''='' \<notin> set n \<Longrightarrow> cut_value (n @ CHR ''='' # v) = (n, Some v)"
  by (induction n) auto

lemma cut_value_none: "CHR ''='' \<notin> set n \<Longrightarrow> cut_value n = (n, None)"
  by (induction n) auto

lemma own_flag_names:
  assumes "map_of own_flags n = Some fv"
  shows "n \<noteq> []" "CHR ''='' \<notin> set n" "hd n \<noteq> CHR ''-''" "hd n \<noteq> CHR ''=''"
  using assms by (auto simp: own_flags_def split: if_splits)

lemma parse_own_arg:
  assumes "own_arg a"
  shows "parse_flags others (arg_words a @ rest) c =
    (if valid_setting (arg_setting a) then parse_flags others rest (given_flags [arg_setting a] (fst c), snd c)
     else Inl (case arg_setting a of (n, v) \<Rightarrow> Invalid_Value n v))"
proof -
  define n where "n = fst (arg_setting a)"
  obtain fv where fv: "map_of own_flags n = Some fv"
    using assms by (cases a) (auto simp: n_def split: option.splits)
  note nm = own_flag_names [OF fv] and set = set_own_flag [OF fv]
  obtain x xs where n: "n = x # xs" "x \<noteq> CHR ''-''" "x \<noteq> CHR ''=''" using nm by (cases n) auto
  note cut = cut_value_append [OF nm(2)] cut_value_none [OF nm(2)]
  have find: "find_flag others n = Some fv" using fv by (simp add: find_flag_def)
  show ?thesis
  proof (cases a)
    case (Joined two m v)
    then have "m = n" by (simp add: n_def)
    with Joined n cut(1) find set show ?thesis by (cases two) (simp_all add: dashes_def)
  next
    case (Spaced two m v)
    then have "m = n" by (simp add: n_def)
    moreover from this Spaced assms fv have "\<not> needs_no_value fv" by simp
    ultimately show ?thesis using Spaced n cut(2) find set by (cases two) (simp_all add: dashes_def)
  next
    case (Alone two m)
    then have "m = n" by (simp add: n_def)
    moreover from this Alone assms fv have "needs_no_value fv" by simp
    ultimately show ?thesis using Alone n cut(2) find set by (cases two) (simp_all add: dashes_def)
  qed
qed

lemma parse_ended: "ends_flags tail \<Longrightarrow> parse_flags others tail c = Inr c"
  by (cases tail) (auto simp: ends_flags_def)

declare parse_flags.simps(2) [simp del]

lemma parse_own_args:
  assumes "list_all own_arg flag_args" "ends_flags tail"
  shows "parse_flags others (concat (map arg_words flag_args) @ tail) c = Inr c' \<longleftrightarrow>
    list_all valid_setting (map arg_setting flag_args) \<and>
    c' = (given_flags (map arg_setting flag_args) (fst c), snd c)"
  using assms
proof (induction flag_args arbitrary: c)
  case Nil
  then show ?case by (auto simp: parse_ended)
next
  case (Cons a flag_args)
  then have "own_arg a" by simp
  from parse_own_arg [OF this, of others "concat (map arg_words flag_args) @ tail" c] Cons
  show ?case using given_flags_Cons [of "arg_setting a" "map arg_setting flag_args"] by auto
qed

lemma run_startup_calls:
  assumes "Start_Manager \<in> set (fst (run_calls ok [] (startup_calls f gvks)))"
  shows "fst (run_calls ok [] (startup_calls f gvks)) = startup_calls f gvks"
    and "\<forall>i < 6. ok (take i (startup_calls f gvks)) (startup_calls f gvks ! i)"
    and "snd (run_calls ok [] (startup_calls f gvks)) = 0 \<longleftrightarrow> ok (butlast (startup_calls f gvks)) Start_Manager"
  using assms by (auto simp: startup_calls_def less_Suc_eq numeral_eq_Suc split: if_splits)

lemma ParseGVKs_nonempty: "ParseGVKs p = Inr gvks \<Longrightarrow> gvks \<noteq> []"
  by (auto simp: ParseGVKs_def Let_def split: if_splits)

section \<open>Properties\<close>

text \<open>C31: The manager is started only when the command line parses, the GVK pattern has a valid kind and every
  earlier call succeeded, in the order of the code: configuration, manager, controller, webhook, health
  and readiness checks. The process then watches exactly the kinds of the pattern, at least one. The TLS
  servers for metrics and webhooks offer the one protocol \<open>http/1.1\<close> unless the flag for HTTP/2 is set, and
  are left at the default of the library if it is. The process ends with status 0 exactly if the start
  succeeded.\<close>

theorem startup_safe:
  assumes "Start_Manager \<in> set (calls_made (main_program others ok getenv args))"
  shows "\<exists>f opts gvks.
    parse_flags others args (default_flags (getenv ''GVK_PATTERN''), \<lparr>development = True, log_level_opt = None\<rparr>) =
      Inr (f, opts) \<and>
    ParseGVKs (gvkPattern f) = Inr gvks \<and> gvks \<noteq> [] \<and>
    calls_made (main_program others ok getenv args) =
      [Load_Config, New_Manager (options_of_flags f), Setup_Controller gvks, Setup_Webhook, Add_Healthz,
       Add_Readyz, Start_Manager] \<and>
    (\<forall>i < 6. ok (take i (startup_calls f gvks)) (startup_calls f gvks ! i)) \<and>
    (exit_status (main_program others ok getenv args) = 0 \<longleftrightarrow>
       ok (butlast (startup_calls f gvks)) Start_Manager) \<and>
    metrics_protocols (options_of_flags f) = (if enableHTTP2 f then None else Some [''http/1.1'']) \<and>
    webhook_protocols (options_of_flags f) = (if enableHTTP2 f then None else Some [''http/1.1''])"
proof -
  let ?c = "(default_flags (getenv ''GVK_PATTERN''), \<lparr>development = True, log_level_opt = None\<rparr>)"
  obtain f opts where parsed: "parse_flags others args ?c = Inr (f, opts)"
    using assms by (cases "parse_flags others args ?c") (auto simp: main_program_def)
  obtain gvks where gvks: "ParseGVKs (gvkPattern f) = Inr gvks"
    using assms parsed by (cases "ParseGVKs (gvkPattern f)") (auto simp: main_program_def)
  let ?run = "run_calls ok [] (startup_calls f gvks)"
  have out: "calls_made (main_program others ok getenv args) = fst ?run"
    "exit_status (main_program others ok getenv args) = snd ?run"
    using parsed gvks by (simp_all add: main_program_def split_def Let_def)
  note r = run_startup_calls [OF assms [unfolded out]]
  show ?thesis
    using parsed gvks ParseGVKs_nonempty [OF gvks] r out
    by (intro exI [of _ f] exI [of _ opts] exI [of _ gvks] conjI)
      (simp_all add: startup_calls_def options_of_flags_def tls_protocols_def)
qed

theorem startup_safe_witness:
  "Start_Manager \<in> set (calls_made (main_program (\<lambda>n. None) (\<lambda>made c. True) (\<lambda>v. []) [''--gvk-pattern=v1/Pod''])) \<and>
   exit_status (main_program (\<lambda>n. None) (\<lambda>made c. True) (\<lambda>v. []) [''--gvk-pattern=v1/Pod'']) = 0"
proof -
  have "Start_Manager \<in> set (calls_made (main_program (\<lambda>n. None) (\<lambda>made c. True) (\<lambda>v. []) [''--gvk-pattern=v1/Pod'']))"
    by code_simp
  from startup_safe [OF this] this show ?thesis by auto
qed

text \<open>C32: How the operator's own flags are read, on command lines made of them alone, in every form \<open>flag\<close> knows
  (one dash or two; \<open>name=value\<close>; the value as the next argument, for flags that are not boolean; a boolean
  without value), up to the end, to an argument that is no flag or to \<open>--\<close>. Parsing succeeds exactly when
  every boolean and every duration given is valid, and then each of the nine settings, the pattern of watched
  kinds among them, is the last value given for it, whatever bytes a string has, or its default, which for the
  pattern is the variable \<open>GVK_PATTERN\<close>; the log settings are not touched.\<close>

theorem gvk_pattern_source:
  assumes "list_all own_arg flag_args" "ends_flags tail"
  defines "kvs \<equiv> map arg_setting flag_args"
  shows "parse_flags others (concat (map arg_words flag_args) @ tail) (default_flags env_pattern, opts) = Inr (f, opts') \<longleftrightarrow>
    list_all valid_setting kvs \<and> opts' = opts \<and>
    f = \<lparr>gvkPattern = given kvs ''gvk-pattern'' id env_pattern,
         metricsAddr = given kvs ''metrics-bind-address'' id '':8080'',
         probeAddr = given kvs ''health-probe-bind-address'' id '':8081'',
         enableLeaderElection = given kvs ''leader-elect'' given_bool False,
         secureMetrics = given kvs ''metrics-secure'' given_bool False,
         enableHTTP2 = given kvs ''enable-http2'' given_bool False,
         leaderElectionLeaseDuration = given kvs ''leader-election-lease-duration'' given_duration (30 * second),
         leaderElectionRenewDeadline = given kvs ''leader-election-renew-deadline'' given_duration (20 * second),
         leaderElectionRetryPeriod = given kvs ''leader-election-retry-period'' given_duration (5 * second)\<rparr>"
  using parse_own_args [OF assms(1,2), of others "(default_flags env_pattern, opts)" "(f, opts')"]
  by (auto simp: kvs_def default_flags_def given_flags_def)

theorem gvk_pattern_source_witness:
  "\<exists>f. parse_flags (\<lambda>n. None)
     [''--gvk-pattern=a'', ''-leader-elect'', ''-gvk-pattern'', ''v1/Pod=x'', ''rest'', ''--gvk-pattern=b'']
     (default_flags ''env'', \<lparr>development = True, log_level_opt = None\<rparr>) =
       Inr (f, \<lparr>development = True, log_level_opt = None\<rparr>) \<and>
     gvkPattern f = ''v1/Pod=x'' \<and> enableLeaderElection f \<and> \<not> enableHTTP2 f"
proof -
  let ?args = "[Joined True ''gvk-pattern'' ''a'', Alone False ''leader-elect'', Spaced False ''gvk-pattern'' ''v1/Pod=x'']"
  have o: "list_all own_arg ?args" by code_simp
  have e: "ends_flags [''rest'', ''--gvk-pattern=b'']" by code_simp
  have w: "concat (map arg_words ?args) @ [''rest'', ''--gvk-pattern=b''] =
      [''--gvk-pattern=a'', ''-leader-elect'', ''-gvk-pattern'', ''v1/Pod=x'', ''rest'', ''--gvk-pattern=b'']"
    by (simp add: dashes_def)
  have v: "list_all valid_setting (map arg_setting ?args)" by code_simp
  have g: "given (map arg_setting ?args) ''gvk-pattern'' id ''env'' = ''v1/Pod=x''"
    "given (map arg_setting ?args) ''leader-elect'' given_bool False"
    "\<not> given (map arg_setting ?args) ''enable-http2'' given_bool False" by code_simp+
  note p = gvk_pattern_source [OF o e, of "\<lambda>n. None" "''env''" "\<lparr>development = True, log_level_opt = None\<rparr>"
      _ "\<lparr>development = True, log_level_opt = None\<rparr>", THEN iffD2, OF conjI [OF v conjI [OF refl refl]]]
  show ?thesis by (rule exI, rule conjI [OF p [unfolded w]]) (use g in simp)
qed

end
