(* ===== verification/Spec2Isabelle.thy ===== *)
theory Spec2Isabelle
  imports Pass_Properties Pass_Refinement Operator_Runs Watches Template_Funcs Startup
begin

text \<open>
  Verification development for the database query operator, a Kubernetes controller in Go. A
  \<open>DatabaseQueryResource\<close> names a database, a query and a template; the operator runs the query at an
  interval, renders one Kubernetes object per row, creates or updates the objects, deletes those whose row
  is gone, and can write the state of the objects back to the database.

  \<^bold>\<open>The program and its theories.\<close>

  \<^item> \<open>src/main.go\<close> reads flags and environment variables and starts the manager: \<open>Startup\<close>. The
    pattern of watched kinds goes through \<open>src/internal/util/gvk.go\<close>: \<open>Gvk\<close>.
  \<^item> \<open>src/internal/controller/databasequeryresource_controller.go\<close> is the controller. \<open>Watches\<close> has the
    predicates that decide which events call it (\<open>SetupWithManagerAndGVKs\<close>). \<open>Reconcile\<close> has the handler
    itself, cut at the stretches of the Go function: \<open>handle_deletion\<close> (the finalizer branch),
    \<open>deferred_status_update\<close> (the deferred closure), \<open>reconcile_live\<close>, \<open>skipped_pass\<close>, \<open>full_pass\<close>,
    \<open>process_rows\<close> (the row loop), \<open>prune_phase\<close>, \<open>finish_pass\<close>. It calls \<open>Schedule\<close> (\<open>shouldReconcile\<close>,
    \<open>detectChanges\<close>, \<open>nextRequeueInterval\<close>, \<open>getOrCreateDBClient\<close>), \<open>Db_Config\<close> (\<open>getDBConfig\<close>,
    \<open>parsePostgreSQLURI\<close>), \<open>Pg_Identifiers\<close> (\<open>sanitizePGIdentifier\<close>), \<open>Children\<close> (object keys, collecting
    and pruning children, \<open>setCondition\<close>, \<open>updateStatusForChildResources\<close>), \<open>Managed_Config\<close> (the
    last-applied annotation, \<open>configsEqual\<close>, \<open>applyDesiredState\<close>) and \<open>Apply\<close> (\<open>shouldUpdateResource\<close>,
    \<open>updateWithConflictRetry\<close>).
  \<^item> \<open>src/internal/controller/funcs.go\<close> gives the templates their functions: \<open>Template_Funcs\<close>.
  \<^item> \<open>src/internal/util/postgres_client.go\<close> and \<open>mock_database_client.go\<close> implement the interface of
    \<open>database_client.go\<close>: \<open>Postgres\<close>, with the statement splitter in \<open>Sql_Statements\<close>.
  \<^item> \<open>src/internal/webhook/v1alpha1/\<close> admits resources before they are stored: \<open>Webhook\<close>.
  \<^item> \<open>src/api/v1alpha1/databasequeryresource_types.go\<close> is the resource: \<open>Api_Types\<close>.
  \<^item> Below these lie the standard library as far as the code uses it: \<open>Go_Strings\<close> (strings, UTF-8),
    \<open>Go_Time\<close> (durations, instants), \<open>Go_Calendar\<close> (RFC 3339 times), \<open>Go_Json\<close> with \<open>Json_Roundtrip\<close>
    (encoding/json), \<open>Go_Url\<close> (net/url). \<open>Prelude\<close> has the program logic and the rule collections.

  \<^bold>\<open>State and effects.\<close> What the repository only calls is the record \<open>env\<close> of \<open>Cluster\<close>: functions on an
  arbitrary world for the API server, the driver pgx, the clock, the template engine, the YAML decoder,
  \<open>SetControllerReference\<close>, \<open>RemoveFinalizer\<close>, \<open>SetStatusCondition\<close>, the zone of the host. A program of the
  controller is a function of the state monad on the record \<open>rs\<close>: the world, the local variable \<open>dbqr\<close> of
  \<open>Reconcile\<close> (\<open>cr\<close>), and the history of the external calls with their outcomes, which no program reads.
  A Go error is a value of a sum or option type and every early return is a branch. Strings are lists of
  bytes; durations are integers with the bounds, saturation and wrap-around of int64 written out; nil and
  empty maps or slices are told apart where \<open>reflect.DeepEqual\<close> or JSON does.

  \<^bold>\<open>What the lemmas show.\<close>

  \<^item> Judgements on programs, each with a collection of syntax directed rules: \<open>hoare\<close> and \<open>keeps\<close>
    (\<open>Prelude\<close>), \<open>emits\<close> (which calls, \<open>Cluster\<close>), \<open>returns\<close> (which results, \<open>Pass_Results\<close>). \<open>Policies\<close>
    states once, in locales, what every part of a pass calls; \<open>Pass_Facts\<close> what it changes in the status;
    \<open>Kept_Worlds\<close> which properties of the world survive the calls.
  \<^item> \<open>Deletion\<close>, \<open>Pass_Properties\<close>: the safety of deletions and of the finalizer, the exact objects pruning
    deletes, the status after a pass, the requeue interval, the deferred write, what a skipped pass may do,
    and that no child is written in a pass whose query failed.
  \<^item> \<open>Pass_Refinement\<close>: an abstract cluster (which objects exist, the configuration last applied to each,
    which are terminating), the specification \<open>pass_spec\<close> of a pass as a relation on it, and the proof that
    a pass refines it. A deletion removes an object or leaves it terminating (\<open>deletes_one\<close>).
  \<^item> \<open>Convergence\<close>: on a quiet cluster a second pass over the same rows writes nothing, if the template of the
    resource renders from the row alone (\<open>pure_template\<close>) and its objects are \<open>tame\<close>: whole numbers below
    2^53, valid UTF-8, no annotation of another actor and no desired annotation with an empty value.
    \<open>Operator_Runs\<close>: runs of passes interleaved with steps of others, and the invariant of the stored
    status in every reachable world.
  \<^item> \<open>Managed_Config\<close>, \<open>Json_Roundtrip\<close>: a stored configuration reads back, and the comparison is equality
    of what reads back. \<open>Apply\<close>: when an update settles, bounded retries.
  \<^item> \<open>Schedule\<close>, \<open>Go_Time\<close>, \<open>Go_Calendar\<close>: bounds of the intervals, the conditions of a skip, and the
    instant the detection query compares with.
  \<^item> \<open>Sql_Statements\<close>: the splitter refines a token level reading of the query. \<open>Pg_Identifiers\<close>: the
    quoted identifier lexes as one chain. \<open>Db_Config\<close>, \<open>Postgres\<close>: the connection parameters, which
    connection a query uses, and what an error text reveals of the password. \<open>Webhook\<close>: the admitted
    resources exactly. \<open>Startup\<close>: how every form of command line is read, and what must hold for the start.
  \<^item> Interfaces stated as locales: \<open>key_codec\<close> (object keys), \<open>config_store\<close> (the stored configuration),
    \<open>call_policy\<close> and \<open>row_policy\<close> (calls of a pass), each interpreted on the definitions of the model.
  \<^item> \<open>Simulation\<close> is one executable environment; a property that assumes something of the environment is
    applied to it.

  \<^bold>\<open>Bounds.\<close> Loops over lists are structural recursions. The two retry loops count down from the constants
  of the code, three attempts each (\<open>max_update_retries\<close>, \<open>max_status_retries\<close>). The JSON reader descends
  with a fuel of the length of the text plus one, and every recursive call consumes at least one byte, so the
  fuel does not run out; \<open>ParseDuration\<close> and the trimming functions recurse on shorter strings.

  \<^bold>\<open>Not modelled.\<close> The generated deep copies (the identity on values without addresses), scheme
  registration and the builder of the webhook; log output and recorded events; the lock of the mock client
  and everything else that concerns concurrent passes, which the work queue of controller-runtime excludes
  for one resource; contexts and timeouts; the template engine, YAML, TOML and sprig, pgx, and the way \<open>%v\<close>
  prints a value of the driver; the nesting limit of encoding/json. Manifests, documentation and tests are
  not part of the program.
\<close>

end
